theory Spec2Isabelle
  imports
    Complex_Main
    "HOL-Library.Word"
    "HOL-Library.Char_ord"
    "HOL-Library.List_Lexorder"
    "HOL-Library.Product_Lexorder"
begin

section \<open>Containers of the standard library\<close>

text \<open>
  A \<^verbatim>\<open>std::map\<close> is kept as an association list in ascending key order, the order in
  which the source iterates over it. \<^verbatim>\<open>m[k] = v\<close> is \<open>map_assign\<close>, \<^verbatim>\<open>m.find(k)\<close> is
  \<^const>\<open>map_of\<close>, \<^verbatim>\<open>m.erase(it)\<close> for the iterator of key \<open>k\<close> is \<open>map_erase\<close>, and
  \<^verbatim>\<open>m.begin()\<close> is the head of the list.
\<close>

fun map_assign :: "'k::linorder \<Rightarrow> 'v \<Rightarrow> ('k \<times> 'v) list \<Rightarrow> ('k \<times> 'v) list" where
  "map_assign key val [] = [(key, val)]"
| "map_assign key val (e # es) =
     (if fst e = key then (key, val) # es
      else if key < fst e then (key, val) # e # es
      else e # map_assign key val es)"

fun map_erase :: "'k \<Rightarrow> ('k \<times> 'v) list \<Rightarrow> ('k \<times> 'v) list" where
  "map_erase key [] = []"
| "map_erase key (e # es) = (if fst e = key then es else e # map_erase key es)"


section \<open>ImageCache\<close>

text \<open>
  An image held by the cache: the class of the object behind the \<^verbatim>\<open>itk::Object\<close> pointer
  (what \<^verbatim>\<open>dynamic_cast\<close> inspects) and the number of elements of its pixel container.
  \<open>TImage\<close> is the template argument of \<^verbatim>\<open>GetImage\<close>: the requested class and the
  \<^verbatim>\<open>sizeof\<close> of its pixel element.
\<close>

record image =
  img_class :: nat
  img_pixels :: "64 word"

record TImage =
  t_class :: nat
  t_sizeof :: "64 word"

text \<open>
  Cache entry (age, size, pointer). \<^verbatim>\<open>unsigned long\<close> is 64 bits wide and
  \<^verbatim>\<open>unsigned int\<close> 32, as on the LP64 platforms.
\<close>

type_synonym CacheEntry = "64 word \<times> 64 word \<times> image"

record image_cache =
  m_Cache :: "(string \<times> CacheEntry) list"
  m_MaxMemory :: "64 word"
  m_UsedMemory :: "64 word"
  m_MaxImages :: "32 word"
  m_Counter :: "64 word"

text \<open>
  The constructor's initialiser list names \<^verbatim>\<open>m_MaxMemory\<close>, \<^verbatim>\<open>m_MaxImages\<close> and
  \<^verbatim>\<open>m_Counter\<close> only. \<^verbatim>\<open>m_UsedMemory\<close> is left default-initialised, so it holds
  whatever the storage held before: the first argument \<open>indeterminate\<close>.
\<close>

definition ImageCache :: "64 word \<Rightarrow> 64 word \<Rightarrow> 32 word \<Rightarrow> image_cache" where
  "ImageCache indeterminate max_memory max_images =
     \<lparr>m_Cache = [], m_MaxMemory = max_memory, m_UsedMemory = indeterminate,
      m_MaxImages = max_images, m_Counter = 0\<rparr>"

text \<open>
  \<^verbatim>\<open>m_Cache.size() + new_images > m_MaxImages\<close> is evaluated in \<^verbatim>\<open>size_t\<close>, 64 bits wide; both
  \<^verbatim>\<open>unsigned int\<close> operands are widened.
\<close>

definition IsCacheFull :: "image_cache \<Rightarrow> 64 word \<Rightarrow> 32 word \<Rightarrow> bool" where
  "IsCacheFull c new_bytes new_images =
     (if 0 < m_MaxMemory c \<and> m_MaxMemory c < m_UsedMemory c + new_bytes then True
      else if 0 < m_MaxImages c
              \<and> (ucast (m_MaxImages c) :: 64 word)
                  < of_nat (length (m_Cache c)) + ucast new_images then True
      else False)"

text \<open>
  The body of the eviction loop. \<open>sort_map\<close> is the local \<^verbatim>\<open>std::map\<close> from age to file
  name, filled in the iteration order of \<^verbatim>\<open>m_Cache\<close>; its first entry names the victim.
  Dereferencing \<^verbatim>\<open>sort_map.begin()\<close> of an empty map or the \<^verbatim>\<open>end()\<close> iterator returned
  by a failed \<^verbatim>\<open>find\<close> is undefined behaviour: \<open>None\<close>.
\<close>

definition sort_map :: "(string \<times> CacheEntry) list \<Rightarrow> (64 word \<times> string) list" where
  "sort_map cache = fold (\<lambda>it sm. map_assign (fst (snd it)) (fst it) sm) cache []"

definition erase_oldest :: "image_cache \<Rightarrow> image_cache option" where
  "erase_oldest c =
     (case sort_map (m_Cache c) of
        [] \<Rightarrow> None
      | first # _ \<Rightarrow>
          (case map_of (m_Cache c) (snd first) of
             None \<Rightarrow> None
           | Some it_erase \<Rightarrow>
               Some (c\<lparr>m_UsedMemory := m_UsedMemory c - fst (snd it_erase),
                       m_Cache := map_erase (snd first) (m_Cache c)\<rparr>)))"

text \<open>The loop itself; a run that never leaves the loop has no value (\<open>None\<close>).\<close>

partial_function (option) ShrinkCache ::
  "image_cache \<Rightarrow> 64 word \<Rightarrow> 32 word \<Rightarrow> image_cache option" where
  "ShrinkCache c new_bytes new_images =
     (if IsCacheFull c new_bytes new_images \<and> 0 < length (m_Cache c)
      then Option.bind (erase_oldest c) (\<lambda>c'. ShrinkCache c' new_bytes new_images)
      else Some c)"

datatype GreedyException = GreedyException string

text \<open>
  \<open>reader\<close> stands for \<^verbatim>\<open>itk::ImageFileReader\<close>: the number of elements of the pixel
  container of the image read from a file, or an exception of the reader. The result of
  \<open>GetImage\<close> is \<open>None\<close> when the call does not return, an exception, or the image
  returned together with the cache after the call.
\<close>

datatype 'a outcome = Throws GreedyException | ExternalThrows | Returns 'a

definition GetImage ::
  "(string \<Rightarrow> 64 word option) \<Rightarrow> TImage \<Rightarrow> image_cache \<Rightarrow> string
     \<Rightarrow> (image \<times> image_cache) outcome option" where
  "GetImage reader T c filename =
     (case map_of (m_Cache c) filename of
        Some it \<Rightarrow>
          (if img_class (snd (snd it)) = t_class T
           then Some (Returns (snd (snd it), c))
           else Some (Throws (GreedyException ''Type mismatch in image cache'')))
      | None \<Rightarrow>
          (case reader filename of
             None \<Rightarrow> Some ExternalThrows
           | Some n \<Rightarrow>
               (let image_ptr = \<lparr>img_class = t_class T, img_pixels = n\<rparr>;
                    img_size = n * t_sizeof T
                in Option.bind (ShrinkCache c img_size 1) (\<lambda>c1.
                     Some (Returns (image_ptr,
                       c1\<lparr>m_Cache := map_assign filename (m_Counter c1, img_size, image_ptr)
                                        (m_Cache c1),
                          m_Counter := m_Counter c1 + 1,
                          m_UsedMemory := m_UsedMemory c1 + img_size\<rparr>))))))"

definition PurgeCache :: "image_cache \<Rightarrow> image_cache" where
  "PurgeCache c = c\<lparr>m_Cache := [], m_UsedMemory := 0\<rparr>"

text \<open>The files resident in a cache, and the bytes they occupy.\<close>

definition residents :: "image_cache \<Rightarrow> string set" where
  "residents c = fst ` set (m_Cache c)"

definition resident_bytes :: "image_cache \<Rightarrow> 64 word" where
  "resident_bytes c = sum_list (map (\<lambda>it. fst (snd (snd it))) (m_Cache c))"

text \<open>
  The accounting invariant of the cache: \<^verbatim>\<open>m_UsedMemory\<close> is the sum of the sizes of the
  resident entries, in the arithmetic of \<^verbatim>\<open>unsigned long\<close>. \<open>exact_accounting\<close> is the
  same without wrap-around: the sizes add up, as natural numbers, to \<^verbatim>\<open>m_UsedMemory\<close>.
\<close>

definition accounting :: "image_cache \<Rightarrow> bool" where
  "accounting c \<longleftrightarrow> m_UsedMemory c = resident_bytes c"

definition exact_accounting :: "image_cache \<Rightarrow> bool" where
  "exact_accounting c \<longleftrightarrow>
     unat (m_UsedMemory c) = sum_list (map (\<lambda>it. unat (fst (snd (snd it)))) (m_Cache c))"

text \<open>
  A caller that asks the cache for a list of files in turn, dropping the images returned,
  and stops at the first exception.
\<close>

fun GetImage_seq ::
  "(string \<Rightarrow> 64 word option) \<Rightarrow> TImage \<Rightarrow> image_cache \<Rightarrow> string list
     \<Rightarrow> image_cache outcome option" where
  "GetImage_seq reader T c [] = Some (Returns c)"
| "GetImage_seq reader T c (f # fs) =
     (case GetImage reader T c f of
        None \<Rightarrow> None
      | Some (Throws e) \<Rightarrow> Some (Throws e)
      | Some ExternalThrows \<Rightarrow> Some ExternalThrows
      | Some (Returns (img, c')) \<Rightarrow> GetImage_seq reader T c' fs)"


section \<open>ReconstructStack: neighbours in z\<close>

text \<open>
  \<^verbatim>\<open>slice_ref\<close> is \<^verbatim>\<open>std::pair<double, unsigned int>\<close>: the z position of a slide and its
  index in \<^verbatim>\<open>m_Slices\<close>. The unsigned counters are natural numbers (a project has fewer
  than \<open>2^32\<close> slides). A \<^verbatim>\<open>std::set\<close> is an ascending list without repetition;
  \<open>set_insert\<close> is its \<^verbatim>\<open>insert\<close>.

  Of the z positions the passes use the order, the subtraction and \<^verbatim>\<open>fabs\<close>. They are
  taken from a type \<open>'z\<close> of which only the linear order is assumed: \<open>-\<close> and \<open>\<bar>_\<bar>\<close> are
  the operations of \<^verbatim>\<open>double\<close> with their rounding, whatever it is, and a NaN is excluded.
  The real numbers with the exact operations are one such type; on z positions and
  differences that a \<^verbatim>\<open>double\<close> holds exactly the two agree. In the index of the
  project, where no arithmetic is done on it, the z position of a slide is the real number
  its \<^verbatim>\<open>double\<close> holds.
\<close>

type_synonym slice_ref = "real \<times> nat"

fun set_insert :: "'a::linorder \<Rightarrow> 'a list \<Rightarrow> 'a list" where
  "set_insert x [] = [x]"
| "set_insert x (y # ys) =
     (if y = x then y # ys else if x < y then x # y # ys else y # set_insert x ys)"

text \<open>
  The inner \<^verbatim>\<open>while\<close> of both passes, for the slide at \<open>z\<close>: the elements that get
  inserted, given the count \<open>n_added\<close> so far and the elements after \<^verbatim>\<open>it_next\<close>.
\<close>

fun add_range ::
  "'z::{linorder,minus,abs} \<Rightarrow> 'z \<Rightarrow> nat \<Rightarrow> ('z \<times> nat) list \<Rightarrow> ('z \<times> nat) list" where
  "add_range z z_range n_added [] = []"
| "add_range z z_range n_added (it_next # following) =
     (if n_added < 1 \<or> \<bar>z - fst it_next\<bar> < z_range
      then it_next # add_range z z_range (n_added + 1) following
      else [])"

text \<open>
  One pass over the sorted slides (the outer \<^verbatim>\<open>for\<close>), updating the vector
  \<^verbatim>\<open>slice_nbr\<close>, which has one set for every slide; the indices held by the sorted
  list are below its size. The second pass of the source runs over the reverse iterators,
  that is over the reversed list.
\<close>

fun neighbor_pass ::
  "'z::{linorder,minus,abs} \<Rightarrow> ('z \<times> nat) list \<Rightarrow> ('z \<times> nat) list list
     \<Rightarrow> ('z \<times> nat) list list" where
  "neighbor_pass z_range [] slice_nbr = slice_nbr"
| "neighbor_pass z_range (it # following) slice_nbr =
     neighbor_pass z_range following
       (slice_nbr[snd it := fold set_insert (add_range (fst it) z_range 0 following)
                              (slice_nbr ! snd it)])"

definition neighbor_sets ::
  "'z::{linorder,minus,abs} \<Rightarrow> ('z \<times> nat) list \<Rightarrow> nat \<Rightarrow> ('z \<times> nat) list list" where
  "neighbor_sets z_range m_SortedSlices n_slices =
     neighbor_pass z_range (rev m_SortedSlices)
       (neighbor_pass z_range m_SortedSlices (replicate n_slices []))"

text \<open>
  The walk in words: the first candidate, whatever its distance, then the following
  candidates for as long as their gap, the \<^verbatim>\<open>fabs\<close> of the difference as the arithmetic
  computes it, is below \<open>z_range\<close>.
\<close>

definition first_then_within ::
  "'z::{linorder,minus,abs} \<Rightarrow> 'z \<Rightarrow> ('z \<times> nat) list \<Rightarrow> ('z \<times> nat) list" where
  "first_then_within z z_range cands =
     (case cands of
        [] \<Rightarrow> []
      | c # cs \<Rightarrow> c # takeWhile (\<lambda>x. \<bar>z - fst x\<bar> < z_range) cs)"


section \<open>ReconstructStack: the root of the tree\<close>

text \<open>
  \<open>GetDistanceArray i j\<close> is \<^verbatim>\<open>dijkstra.GetDistanceArray()[j]\<close> after
  \<^verbatim>\<open>dijkstra.ComputePathsFromSource(i)\<close>; the class \<^verbatim>\<open>DijkstraShortestPath\<close> is not part
  of these sources. The distances are of any linearly ordered type with an addition, so
  that an infinite distance to an unreachable slide is covered. \<open>select_root\<close> returns
  \<^verbatim>\<open>i_root\<close> and \<^verbatim>\<open>best_root_dist\<close> as the loop leaves them.
\<close>

definition root_dist :: "(nat \<Rightarrow> nat \<Rightarrow> 'w::{zero,plus}) \<Rightarrow> nat \<Rightarrow> nat \<Rightarrow> 'w" where
  "root_dist GetDistanceArray n i = fold (\<lambda>j acc. acc + GetDistanceArray i j) [0..<n] 0"

definition select_root ::
  "(nat \<Rightarrow> nat \<Rightarrow> 'w::{zero,plus,linorder}) \<Rightarrow> nat \<Rightarrow> nat \<times> 'w" where
  "select_root GetDistanceArray n =
     fold (\<lambda>i (i_root, best_root_dist).
             if i = 0 \<or> root_dist GetDistanceArray n i < best_root_dist
             then (i, root_dist GetDistanceArray n i)
             else (i_root, best_root_dist))
       [0..<n] (0, 0)"


section \<open>The project and its files\<close>

record SliceData =
  raw_filename :: string
  unique_id :: string
  z_pos :: real

datatype FileIntent =
  MANIFEST_FILE | CONFIG_ENTRY | AFFINE_MATRIX | METRIC_VALUE | ACCUM_MATRIX | ACCUM_RESLICE
| VOL_INIT_MATRIX | VOL_SLIDE | VOL_MEDIAN_INIT_MATRIX
| VOL_ITER_MATRIX | VOL_ITER_WARP | ITER_METRIC_DUMP

record StackGreedyProject =
  m_ProjectDir :: string
  m_DefaultImageExt :: string
  reuse :: bool
  m_Slices :: "SliceData list"
  m_SortedSlices :: "slice_ref list"

text \<open>
  \<^verbatim>\<open>sprintf\<close> with the conversions the file names use: \<^verbatim>\<open>%s\<close> is the string itself,
  \<^verbatim>\<open>%d\<close> is \<open>printf_d\<close> and \<^verbatim>\<open>%02d\<close> is \<open>printf_02d\<close>, the decimal numeral padded with
  zeros to two characters. The
  names are taken to fit the 1024 bytes of the buffer, and the creation of the parent
  directory is left out.
\<close>

definition digit :: "nat \<Rightarrow> char" where
  "digit d = ''0123456789'' ! d"

function decimal :: "nat \<Rightarrow> string" where
  "decimal n = (if n < 10 then [digit n] else decimal (n div 10) @ [digit (n mod 10)])"
  by pat_completeness auto
termination
  by (relation "measure id") auto

definition printf_d :: "int \<Rightarrow> string" where
  "printf_d i = (if i < 0 then CHR ''-'' # decimal (nat (- i)) else decimal (nat i))"

definition printf_02d :: "int \<Rightarrow> string" where
  "printf_02d i = replicate (2 - length (printf_d i)) CHR ''0'' @ printf_d i"

text \<open>
  \<open>iter_arg\<close> is the variadic argument, read as an \<^verbatim>\<open>int\<close> for the three intents that
  carry an iteration and ignored otherwise.
\<close>

definition GetFilenameForSlice ::
  "StackGreedyProject \<Rightarrow> SliceData \<Rightarrow> FileIntent \<Rightarrow> int \<Rightarrow> string outcome" where
  "GetFilenameForSlice P slide intent iter_arg =
     (let dir = m_ProjectDir P; ext = m_DefaultImageExt P; sid = unique_id slide;
          iter = (if intent = VOL_ITER_MATRIX \<or> intent = VOL_ITER_WARP
                     \<or> intent = ITER_METRIC_DUMP then iter_arg else 0)
      in case intent of
           ACCUM_MATRIX \<Rightarrow> Returns (dir @ ''/recon/accum/accum_affine_'' @ sid @ ''.mat'')
         | ACCUM_RESLICE \<Rightarrow>
             Returns (dir @ ''/recon/accum/accum_affine_'' @ sid @ ''_reslice.'' @ ext)
         | VOL_INIT_MATRIX \<Rightarrow> Returns (dir @ ''/vol/match/affine_refvol_mov_'' @ sid @ ''.mat'')
         | VOL_SLIDE \<Rightarrow> Returns (dir @ ''/vol/slides/vol_slide_'' @ sid @ ''.'' @ ext)
         | VOL_ITER_MATRIX \<Rightarrow>
             Returns (dir @ ''/vol/iter'' @ printf_02d iter @ ''/affine_refvol_mov_'' @ sid
                        @ ''_iter'' @ printf_02d iter @ ''.mat'')
         | VOL_ITER_WARP \<Rightarrow>
             Returns (dir @ ''/vol/iter'' @ printf_02d iter @ ''/warp_refvol_mov_'' @ sid
                        @ ''_iter'' @ printf_02d iter @ ''.'' @ ext)
         | ITER_METRIC_DUMP \<Rightarrow>
             Returns (dir @ ''/vol/iter'' @ printf_02d iter @ ''/metric_refvol_mov_'' @ sid
                        @ ''_iter'' @ printf_02d iter @ ''.txt'')
         | _ \<Rightarrow> Throws (GreedyException ''Wrong intent in GetFilenameForSlice''))"

text \<open>\<open>key\<close> is the variadic argument of \<^verbatim>\<open>CONFIG_ENTRY\<close>.\<close>

definition GetFilenameForGlobal ::
  "StackGreedyProject \<Rightarrow> FileIntent \<Rightarrow> string \<Rightarrow> string outcome" where
  "GetFilenameForGlobal P intent key =
     (let dir = m_ProjectDir P
      in case intent of
           VOL_MEDIAN_INIT_MATRIX \<Rightarrow> Returns (dir @ ''/vol/match/affine_refvol_median.mat'')
         | MANIFEST_FILE \<Rightarrow> Returns (dir @ ''/config/manifest.txt'')
         | CONFIG_ENTRY \<Rightarrow> Returns (dir @ ''/config/dict/'' @ key)
         | _ \<Rightarrow> Throws (GreedyException ''Wrong intent in GetFilenameForGlobal''))"

text \<open>Sequencing of calls that may throw.\<close>

fun and_then :: "'a outcome \<Rightarrow> ('a \<Rightarrow> 'b outcome) \<Rightarrow> 'b outcome" where
  "and_then (Returns x) f = f x"
| "and_then (Throws e) f = Throws e"
| "and_then ExternalThrows f = ExternalThrows"


section \<open>Affine matrices\<close>

text \<open>
  A matrix is the list of its rows. The affine matrices of the two-dimensional transforms
  are 3 by 3. The entries are values of \<^verbatim>\<open>double\<close>: a type \<open>'d\<close> with the operations and
  the comparison the code applies to them, of which nothing is assumed but that the order is
  linear (a NaN is excluded). Sums are accumulated from 0 in the order of the loops, so
  that the rounding of every operation is the arithmetic's own. \<open>mat_sub\<close> and \<open>mat_mult\<close>
  are the operators \<^verbatim>\<open>-\<close> and \<^verbatim>\<open>*\<close> of \<^verbatim>\<open>vnl_matrix\<close>, and \<open>array_one_norm\<close> adds up the
  absolute values of all entries in storage order. The matrix files of the project are a
  map from file names to matrices; \<open>ReadAffineMatrix\<close> and \<open>WriteAffineMatrix\<close> stand for
  the functions of that name of the registration engine.
\<close>

type_synonym 'd matrix = "'d list list"

definition mat_sub :: "'d::minus matrix \<Rightarrow> 'd matrix \<Rightarrow> 'd matrix" where
  "mat_sub A B = map2 (map2 (-)) A B"

definition mat_mult :: "'d::{zero,plus,times} matrix \<Rightarrow> 'd matrix \<Rightarrow> 'd matrix" where
  "mat_mult A B =
     map (\<lambda>row. map (\<lambda>col. fold (\<lambda>(a, b) acc. acc + a * b) (zip row col) 0) (transpose B)) A"

definition array_one_norm :: "'d::{zero,plus,abs} matrix \<Rightarrow> 'd" where
  "array_one_norm A = fold (\<lambda>x acc. acc + \<bar>x\<bar>) (concat A) 0"

type_synonym 'd matrix_files = "string \<rightharpoonup> 'd matrix"

definition ReadAffineMatrix :: "'d matrix_files \<Rightarrow> string \<Rightarrow> 'd matrix outcome" where
  "ReadAffineMatrix fs fn = (case fs fn of None \<Rightarrow> ExternalThrows | Some M \<Rightarrow> Returns M)"

definition WriteAffineMatrix :: "'d matrix_files \<Rightarrow> string \<Rightarrow> 'd matrix \<Rightarrow> 'd matrix_files"
  where
  "WriteAffineMatrix fs fn M = fs(fn \<mapsto> M)"


section \<open>InitialMatchToVolume: the median affine and the initial transforms\<close>

text \<open>The list \<^verbatim>\<open>vol_affine\<close>, read from the files the registrations have written.\<close>

fun read_vol_affine ::
  "StackGreedyProject \<Rightarrow> 'd matrix_files \<Rightarrow> SliceData list \<Rightarrow> 'd matrix list outcome" where
  "read_vol_affine P fs [] = Returns []"
| "read_vol_affine P fs (s # ss) =
     and_then (GetFilenameForSlice P s VOL_INIT_MATRIX 0) (\<lambda>fn_vol_init_matrix.
     and_then (ReadAffineMatrix fs fn_vol_init_matrix) (\<lambda>M.
     and_then (read_vol_affine P fs ss) (\<lambda>Ms. Returns (M # Ms))))"

text \<open>
  \<^verbatim>\<open>aff_dist\<close> is filled with 0 and then set, for \<open>j < i\<close>, at \<open>(i, j)\<close> and \<open>(j, i)\<close> to the
  norm of \<open>vol_affine[i] - vol_affine[j]\<close>. \<^verbatim>\<open>row_sums\<close> is its product with the vector of
  ones.
\<close>

definition aff_dist :: "'d::{zero,plus,minus,abs} matrix list \<Rightarrow> nat \<Rightarrow> nat \<Rightarrow> 'd" where
  "aff_dist vol_affine i j =
     (if j < i then array_one_norm (mat_sub (vol_affine ! i) (vol_affine ! j))
      else if i < j then array_one_norm (mat_sub (vol_affine ! j) (vol_affine ! i))
      else 0)"

definition row_sums :: "'d::{zero,one,plus,minus,times,abs} matrix list \<Rightarrow> 'd list" where
  "row_sums vol_affine =
     map (\<lambda>i. fold (\<lambda>j acc. acc + aff_dist vol_affine i j * 1) [0..<length vol_affine] 0)
       [0..<length vol_affine]"

text \<open>
  \<^verbatim>\<open>min_value\<close> of a vector, without a value on the empty vector, and the distance of
  \<^verbatim>\<open>std::find\<close> from \<^verbatim>\<open>begin()\<close>: the first index that holds the value, or the length.
\<close>

fun min_value :: "'d::linorder list \<Rightarrow> 'd option" where
  "min_value [] = None"
| "min_value (x # xs) = Some (fold (\<lambda>y tmp. if y < tmp then y else tmp) xs x)"

fun find_index :: "'a \<Rightarrow> 'a list \<Rightarrow> nat" where
  "find_index v [] = 0"
| "find_index v (x # xs) = (if x = v then 0 else Suc (find_index v xs))"

definition idx_best ::
  "'d::{linorder,zero,one,plus,minus,times,abs} matrix list \<Rightarrow> nat option" where
  "idx_best vol_affine =
     map_option (\<lambda>m. find_index m (row_sums vol_affine)) (min_value (row_sums vol_affine))"

text \<open>
  \<^verbatim>\<open>vol_affine[idx_best]\<close>; an index outside the vector is undefined behaviour.
\<close>

definition median_affine ::
  "'d::{linorder,zero,one,plus,minus,times,abs} matrix list \<Rightarrow> 'd matrix option" where
  "median_affine vol_affine =
     (case idx_best vol_affine of
        None \<Rightarrow> None
      | Some i \<Rightarrow> if i < length vol_affine then Some (vol_affine ! i) else None)"

text \<open>
  The distances in the words of the specification: the entry-wise L1 distance of two
  matrices, accumulated over the pairs of entries, and for the matrix at index \<open>j\<close> the
  sum over all \<open>i\<close> of its distance to the matrix at \<open>i\<close>, the distance of a matrix to
  itself being 0.
\<close>

definition L1_distance :: "'d::{zero,plus,minus,abs} matrix \<Rightarrow> 'd matrix \<Rightarrow> 'd" where
  "L1_distance X Y = fold (\<lambda>(x, y) acc. acc + \<bar>x - y\<bar>) (zip (concat X) (concat Y)) 0"

definition total_distance :: "'d::{zero,plus,minus,abs} matrix list \<Rightarrow> nat \<Rightarrow> 'd" where
  "total_distance Ms j =
     fold (\<lambda>i acc. acc + (if i = j then 0 else L1_distance (Ms ! j) (Ms ! i)))
       [0..<length Ms] 0"

text \<open>The last loop: the complete initial transform of every slide.\<close>

fun write_initial_transforms ::
  "StackGreedyProject \<Rightarrow> 'd::{zero,plus,times} matrix \<Rightarrow> SliceData list \<Rightarrow> 'd matrix_files
     \<Rightarrow> 'd matrix_files outcome" where
  "write_initial_transforms P median [] fs = Returns fs"
| "write_initial_transforms P median (s # ss) fs =
     and_then (GetFilenameForSlice P s ACCUM_MATRIX 0) (\<lambda>fn_accum.
     and_then (ReadAffineMatrix fs fn_accum) (\<lambda>M_root.
     and_then (GetFilenameForSlice P s VOL_ITER_MATRIX 0) (\<lambda>fn_iter0.
       write_initial_transforms P median ss
         (WriteAffineMatrix fs fn_iter0 (mat_mult M_root median)))))"

text \<open>
  \<open>InitialMatchToVolume\<close> from the point where all registrations to the volume slices have
  been run; \<open>None\<close> is undefined behaviour (a project without slides).
\<close>

definition InitialMatchToVolume ::
  "StackGreedyProject \<Rightarrow> 'd::{linorder,zero,one,plus,minus,times,abs} matrix_files
     \<Rightarrow> 'd matrix_files outcome option" where
  "InitialMatchToVolume P fs =
     (case read_vol_affine P fs (m_Slices P) of
        Throws e \<Rightarrow> Some (Throws e)
      | ExternalThrows \<Rightarrow> Some ExternalThrows
      | Returns vol_affine \<Rightarrow>
          (case median_affine vol_affine of
             None \<Rightarrow> None
           | Some median \<Rightarrow>
               Some (and_then (GetFilenameForGlobal P VOL_MEDIAN_INIT_MATRIX [])
                 (\<lambda>fn_median.
                    write_initial_transforms P median (m_Slices P)
                      (WriteAffineMatrix fs fn_median median)))))"


section \<open>IterativeMatchToVolume\<close>

text \<open>
  The check of the iteration range. The counters are \<^verbatim>\<open>unsigned int\<close>, and are handed to
  \<^verbatim>\<open>%d\<close> and to the variadic \<^verbatim>\<open>int\<close> of \<open>GetFilenameForSlice\<close> with the same bits.
\<close>

definition check_iteration_range ::
  "32 word \<Rightarrow> 32 word \<Rightarrow> 32 word \<Rightarrow> 32 word \<Rightarrow> unit outcome" where
  "check_iteration_range n_affine n_deform i_first i_last =
     (if i_last < i_first \<or> i_first = 0 \<or> n_affine + n_deform < i_last
      then Throws (GreedyException
             (''Iteration range ('' @ printf_d (sint i_first) @ '', '' @ printf_d (sint i_last)
                @ '') is out of range [1, '' @ printf_d (sint (n_affine + n_deform)) @ '']''))
      else Returns ())"

text \<open>The output of iteration \<open>iter\<close> for a slide: a matrix or a warp.\<close>

definition fn_result :: "StackGreedyProject \<Rightarrow> 32 word \<Rightarrow> 32 word \<Rightarrow> SliceData \<Rightarrow> string outcome"
  where
  "fn_result P n_affine iter slide =
     (if iter \<le> n_affine
      then GetFilenameForSlice P slide VOL_ITER_MATRIX (sint iter)
      else GetFilenameForSlice P slide VOL_ITER_WARP (sint iter))"

text \<open>
  The transforms pushed onto \<^verbatim>\<open>param_reslice.reslice_param.transforms\<close> for the neighbour
  \<open>j\<close>, in the order of the \<^verbatim>\<open>push_back\<close> calls.
\<close>

definition reslice_transforms ::
  "StackGreedyProject \<Rightarrow> 32 word \<Rightarrow> 32 word \<Rightarrow> SliceData \<Rightarrow> string list outcome" where
  "reslice_transforms P n_affine iter slide_j =
     (if iter - 1 \<le> n_affine
      then and_then (GetFilenameForSlice P slide_j VOL_ITER_MATRIX (sint (iter - 1)))
             (\<lambda>fn_matrix. Returns [fn_matrix])
      else and_then (GetFilenameForSlice P slide_j VOL_ITER_WARP (sint (iter - 1)))
             (\<lambda>fn_warp.
           and_then (GetFilenameForSlice P slide_j VOL_ITER_MATRIX (sint n_affine))
             (\<lambda>fn_matrix. Returns [fn_warp, fn_matrix])))"


section \<open>ReconstructStack: edge weights\<close>

text \<open>
  A value of \<^verbatim>\<open>double\<close>: a finite number, an infinity or a NaN; the sign of a zero is not
  kept. On an infinity or a NaN the operations are those of IEEE 754. On finite operands
  they round the exact result: \<open>rnd\<close> is the rounding of the platform, a parameter, and yields
  an infinity where the result overflows. \<open>d_le\<close> is the comparison \<^verbatim>\<open><=\<close>, false on a NaN.
\<close>

datatype double = Finite real | PosInf | NegInf | NaN

fun d_le :: "double \<Rightarrow> double \<Rightarrow> bool" where
  "d_le (Finite x) (Finite y) = (x \<le> y)"
| "d_le (Finite x) PosInf = True"
| "d_le NegInf (Finite y) = True"
| "d_le NegInf NegInf = True"
| "d_le NegInf PosInf = True"
| "d_le PosInf PosInf = True"
| "d_le a b = False"

fun d_neg :: "double \<Rightarrow> double" where
  "d_neg (Finite x) = Finite (- x)"
| "d_neg PosInf = NegInf"
| "d_neg NegInf = PosInf"
| "d_neg NaN = NaN"

fun d_abs :: "double \<Rightarrow> double" where
  "d_abs (Finite x) = Finite \<bar>x\<bar>"
| "d_abs PosInf = PosInf"
| "d_abs NegInf = PosInf"
| "d_abs NaN = NaN"

fun d_add :: "(real \<Rightarrow> double) \<Rightarrow> double \<Rightarrow> double \<Rightarrow> double" where
  "d_add rnd (Finite x) (Finite y) = rnd (x + y)"
| "d_add rnd NaN b = NaN"
| "d_add rnd a NaN = NaN"
| "d_add rnd PosInf NegInf = NaN"
| "d_add rnd NegInf PosInf = NaN"
| "d_add rnd PosInf b = PosInf"
| "d_add rnd a PosInf = PosInf"
| "d_add rnd NegInf b = NegInf"
| "d_add rnd a NegInf = NegInf"

definition d_sub :: "(real \<Rightarrow> double) \<Rightarrow> double \<Rightarrow> double \<Rightarrow> double" where
  "d_sub rnd a b = d_add rnd a (d_neg b)"

fun d_mul :: "(real \<Rightarrow> double) \<Rightarrow> double \<Rightarrow> double \<Rightarrow> double" where
  "d_mul rnd (Finite x) (Finite y) = rnd (x * y)"
| "d_mul rnd NaN b = NaN"
| "d_mul rnd a NaN = NaN"
| "d_mul rnd (Finite x) b = (if x = 0 then NaN else if 0 < x then b else d_neg b)"
| "d_mul rnd a (Finite y) = (if y = 0 then NaN else if 0 < y then a else d_neg a)"
| "d_mul rnd a b = (if a = b then PosInf else NegInf)"

text \<open>A zero divisor counts as \<open>+0\<close>.\<close>

fun d_div :: "(real \<Rightarrow> double) \<Rightarrow> double \<Rightarrow> double \<Rightarrow> double" where
  "d_div rnd (Finite x) (Finite y) =
     (if y = 0 then (if x = 0 then NaN else if 0 < x then PosInf else NegInf)
      else rnd (x / y))"
| "d_div rnd NaN b = NaN"
| "d_div rnd a NaN = NaN"
| "d_div rnd (Finite x) b = Finite 0"
| "d_div rnd a (Finite y) = (if 0 \<le> y then a else d_neg a)"
| "d_div rnd a b = NaN"

text \<open>
  \<^verbatim>\<open>pair_metric /= -10000.0 * i_ref->GetNumberOfComponentsPerPixel()\<close>, applied to the
  total metric the engine reports. With no component the divisor is \<open>-0\<close>, and the quotient
  the negation of the quotient by \<open>+0\<close>.
\<close>

definition normalize_metric :: "(real \<Rightarrow> double) \<Rightarrow> double \<Rightarrow> nat \<Rightarrow> double" where
  "normalize_metric rnd TotalMetric n_components =
     (if n_components = 0 then d_neg (d_div rnd TotalMetric (Finite 0))
      else d_div rnd TotalMetric (d_mul rnd (Finite (- 10000)) (Finite (real n_components))))"

text \<open>
  The metric of a pair: read back from the metric file when both files of the pair can be
  skipped (\<open>stored\<close> is what the file yields), else computed and normalised.
\<close>

definition pair_metric :: "(real \<Rightarrow> double) \<Rightarrow> bool \<Rightarrow> double \<Rightarrow> double \<Rightarrow> nat \<Rightarrow> double" where
  "pair_metric rnd can_skip stored TotalMetric n_components =
     (if can_skip then stored else normalize_metric rnd TotalMetric n_components)"

text \<open>
  The weight recorded for the edge from the slide at \<open>z\<close> to its neighbour at \<open>z_n\<close>:
  \<^verbatim>\<open>(1.0 - pair_metric) * pow(1 + z_epsilon, fabs(it_n.first - it.first))\<close>. \<open>pow\<close> is the
  function of \<^verbatim>\<open>math.h\<close>, a parameter.
\<close>

definition edge_weight ::
  "(real \<Rightarrow> double) \<Rightarrow> (double \<Rightarrow> double \<Rightarrow> double) \<Rightarrow> double \<Rightarrow> double \<Rightarrow> double \<Rightarrow> double
     \<Rightarrow> double" where
  "edge_weight rnd pow metric z_epsilon z z_n =
     d_mul rnd (d_sub rnd (Finite 1) metric)
       (pow (d_add rnd (Finite 1) z_epsilon) (d_abs (d_sub rnd z_n z)))"

text \<open>
  What the properties of the weights take from the platform: the rounding is monotone and
  exact at 0 and 1, and \<open>pow\<close> with a base of at least 1 and an exponent of at least 0 is at
  least 1 and does not decrease when the exponent grows.
\<close>

definition rounding_ok :: "(real \<Rightarrow> double) \<Rightarrow> bool" where
  "rounding_ok rnd \<longleftrightarrow>
     rnd 0 = Finite 0 \<and> rnd 1 = Finite 1 \<and> (\<forall>x y. x \<le> y \<longrightarrow> d_le (rnd x) (rnd y))"

definition pow_ok :: "(double \<Rightarrow> double \<Rightarrow> double) \<Rightarrow> bool" where
  "pow_ok pow \<longleftrightarrow>
     (\<forall>b y y'. d_le (Finite 1) b \<and> d_le (Finite 0) y \<and> d_le y y' \<longrightarrow>
        d_le (Finite 1) (pow b y) \<and> d_le (pow b y) (pow b y'))"

text \<open>
  An arithmetic for the examples: results that a \<^verbatim>\<open>double\<close> holds are exact, results
  beyond \<open>DBL_MAX\<close> overflow to an infinity. On operands whose exact result is a small
  integer, and where the result overflows, every IEEE 754 arithmetic agrees with it.
\<close>

definition DBL_MAX :: real where
  "DBL_MAX = 2 ^ 1024 - 2 ^ 971"

definition round_exact :: "real \<Rightarrow> double" where
  "round_exact x =
     (if DBL_MAX < x then PosInf else if x < - DBL_MAX then NegInf else Finite x)"

fun pow_exact :: "double \<Rightarrow> double \<Rightarrow> double" where
  "pow_exact (Finite b) (Finite y) = (if 0 < b then round_exact (b powr y) else NaN)"
| "pow_exact (Finite b) PosInf = (if 1 < b then PosInf else if b = 1 then Finite 1 else NaN)"
| "pow_exact PosInf (Finite y) =
     (if y = 0 then Finite 1 else if 0 < y then PosInf else Finite 0)"
| "pow_exact PosInf PosInf = PosInf"
| "pow_exact b y = NaN"


section \<open>ReadManifest\<close>

text \<open>
  The extraction operators of the stream library. \<open>isspace\<close> is the classification of the
  C locale. Extraction of a string skips white space and takes the characters up to the
  next white space; it fails when none is left. The extraction of a \<^verbatim>\<open>double\<close> skips white
  space and hands the rest to the number parser \<open>num_get\<close>, a parameter: it returns the
  value and the characters it did not consume, or fails.
\<close>

definition isspace :: "char \<Rightarrow> bool" where
  "isspace c \<longleftrightarrow> c \<in> set [CHR '' '', CHR 0x09, CHR 0x0A, CHR 0x0B, CHR 0x0C, CHR 0x0D]"

definition extract_string :: "string \<Rightarrow> (string \<times> string) option" where
  "extract_string s =
     (let s' = dropWhile isspace s
      in if s' = [] then None
         else Some (takeWhile (\<lambda>c. \<not> isspace c) s', dropWhile (\<lambda>c. \<not> isspace c) s'))"

definition extract_double ::
  "(string \<Rightarrow> (real \<times> string) option) \<Rightarrow> string \<Rightarrow> (real \<times> string) option" where
  "extract_double num_get s = num_get (dropWhile isspace s)"

text \<open>\<^verbatim>\<open>iss >> slice.unique_id >> slice.z_pos >> slice.raw_filename\<close> on one line.\<close>

definition read_slice :: "(string \<Rightarrow> (real \<times> string) option) \<Rightarrow> string \<Rightarrow> SliceData option"
  where
  "read_slice num_get f_line =
     (case extract_string f_line of
        None \<Rightarrow> None
      | Some (uid, rest1) \<Rightarrow>
          (case extract_double num_get rest1 of
             None \<Rightarrow> None
           | Some (z, rest2) \<Rightarrow>
               (case extract_string rest2 of
                  None \<Rightarrow> None
                | Some (fname, rest3) \<Rightarrow>
                    Some \<lparr>raw_filename = fname, unique_id = uid, z_pos = z\<rparr>)))"

text \<open>
  The lines \<^verbatim>\<open>std::getline\<close> delivers from the content of a file: every newline ends a
  line, and characters after the last newline form a last line.
\<close>

fun getlines :: "string \<Rightarrow> string \<Rightarrow> string list" where
  "getlines f_line [] = (if f_line = [] then [] else [f_line])"
| "getlines f_line (c # cs) =
     (if c = CHR 0x0A then f_line # getlines [] cs else getlines (f_line @ [c]) cs)"

text \<open>
  The loop over the lines, with \<^verbatim>\<open>m_Slices\<close> and \<^verbatim>\<open>m_SortedSlices\<close> as they grow.
  \<open>FileExists\<close> and \<open>CollapseFullPath\<close> stand for the functions of that name of
  \<^verbatim>\<open>itksys::SystemTools\<close>.
\<close>

fun read_lines ::
  "(string \<Rightarrow> (real \<times> string) option) \<Rightarrow> (string \<Rightarrow> bool) \<Rightarrow> (string \<Rightarrow> string)
     \<Rightarrow> string list \<Rightarrow> SliceData list \<Rightarrow> slice_ref list
     \<Rightarrow> (SliceData list \<times> slice_ref list) outcome" where
  "read_lines num_get FileExists CollapseFullPath [] slices sorted_slices =
     Returns (slices, sorted_slices)"
| "read_lines num_get FileExists CollapseFullPath (f_line # f_lines) slices sorted_slices =
     (case read_slice num_get f_line of
        None \<Rightarrow> Throws (GreedyException (''Error reading manifest file, line '' @ f_line))
      | Some slide \<Rightarrow>
          if \<not> FileExists (raw_filename slide)
          then Throws (GreedyException
                 (''File '' @ raw_filename slide @ '' referenced in the manifest does not exist''))
          else read_lines num_get FileExists CollapseFullPath f_lines
                 (slices @ [slide\<lparr>raw_filename := CollapseFullPath (raw_filename slide)\<rparr>])
                 (set_insert (z_pos slide, length slices) sorted_slices))"

text \<open>
  \<open>manifest\<close> is the content of the manifest file, \<open>None\<close> when the file cannot be opened:
  the stream is then not good and no line is read.
\<close>

definition ReadManifest ::
  "(string \<Rightarrow> (real \<times> string) option) \<Rightarrow> (string \<Rightarrow> bool) \<Rightarrow> (string \<Rightarrow> string)
     \<Rightarrow> string option \<Rightarrow> StackGreedyProject \<Rightarrow> StackGreedyProject outcome" where
  "ReadManifest num_get FileExists CollapseFullPath manifest P =
     and_then
       (read_lines num_get FileExists CollapseFullPath
          (case manifest of None \<Rightarrow> [] | Some content \<Rightarrow> getlines [] content) [] [])
       (\<lambda>(slices, sorted_slices).
          Returns (P\<lparr>m_Slices := slices, m_SortedSlices := sorted_slices\<rparr>))"

text \<open>
  A number parser for the examples: an unsigned decimal integer, the longest run of digits.
\<close>

definition is_digit :: "char \<Rightarrow> bool" where
  "is_digit c \<longleftrightarrow> c \<in> set ''0123456789''"

definition digits_value :: "string \<Rightarrow> nat" where
  "digits_value ds = fold (\<lambda>c n. 10 * n + (of_char c - 48)) ds 0"

definition num_get_unsigned :: "string \<Rightarrow> (real \<times> string) option" where
  "num_get_unsigned s =
     (if takeWhile is_digit s = [] then None
      else Some (real (digits_value (takeWhile is_digit s)), dropWhile is_digit s))"


section \<open>An example project\<close>

text \<open>
  Two slides in the project directory \<open>p\<close>, and the matrix files as they are when
  \<open>InitialMatchToVolume\<close> has run its registrations.
\<close>

definition example_project :: StackGreedyProject where
  "example_project =
     \<lparr>m_ProjectDir = ''p'', m_DefaultImageExt = ''nii.gz'', reuse = False,
      m_Slices = [\<lparr>raw_filename = ''/a.png'', unique_id = ''a'', z_pos = 0\<rparr>,
                  \<lparr>raw_filename = ''/b.png'', unique_id = ''b'', z_pos = 1\<rparr>],
      m_SortedSlices = [(0, 0), (1, 1)]\<rparr>"

definition example_files :: "real matrix_files" where
  "example_files =
     [''p/vol/match/affine_refvol_mov_a.mat'' \<mapsto> [[1, 0, 5], [0, 1, 7], [0, 0, 1]],
      ''p/vol/match/affine_refvol_mov_b.mat'' \<mapsto> [[1, 0, 6], [0, 1, 7], [0, 0, 1]],
      ''p/recon/accum/accum_affine_a.mat'' \<mapsto> [[1, 0, 0], [0, 1, 0], [0, 0, 1]],
      ''p/recon/accum/accum_affine_b.mat'' \<mapsto> [[0, - 1, 2], [1, 0, 3], [0, 0, 1]]]"

text \<open>A manifest of two lines, and the same manifest with an empty line between them.\<close>

definition example_manifest :: string where
  "example_manifest = ''a 0 /a.png'' @ [CHR 0x0A] @ ''b 1 /b.png'' @ [CHR 0x0A]"

definition example_manifest_blank :: string where
  "example_manifest_blank =
     ''a 0 /a.png'' @ [CHR 0x0A] @ [CHR 0x0A] @ ''b 1 /b.png'' @ [CHR 0x0A]"

text \<open>
  A line of the manifest is accepted when the three extractions succeed on it and the file
  it names exists.
\<close>

definition line_ok ::
  "(string \<Rightarrow> (real \<times> string) option) \<Rightarrow> (string \<Rightarrow> bool) \<Rightarrow> string \<Rightarrow> bool" where
  "line_ok num_get FileExists f_line =
     (case read_slice num_get f_line of
        None \<Rightarrow> False
      | Some slide \<Rightarrow> FileExists (raw_filename slide))"


section \<open>Properties of the image cache\<close>

lemma ShrinkCache_stop:
  "\<not> (IsCacheFull c new_bytes new_images \<and> 0 < length (m_Cache c)) \<Longrightarrow>
     ShrinkCache c new_bytes new_images = Some c"
  by (subst ShrinkCache.simps) auto

lemma ShrinkCache_iter:
  "IsCacheFull c new_bytes new_images \<and> 0 < length (m_Cache c) \<Longrightarrow>
     ShrinkCache c new_bytes new_images =
       Option.bind (erase_oldest c) (\<lambda>c'. ShrinkCache c' new_bytes new_images)"
  by (subst ShrinkCache.simps) simp

lemma map_assign_not_Nil: "map_assign k v m \<noteq> []"
  by (cases m) auto

lemma map_assign_values: "snd ` set (map_assign k v m) \<subseteq> insert v (snd ` set m)"
  by (induction m) auto

lemma fold_assign_not_Nil:
  "xs \<noteq> [] \<or> acc \<noteq> [] \<Longrightarrow> fold (\<lambda>it sm. map_assign (f it) (g it) sm) xs acc \<noteq> []"
  by (induction xs arbitrary: acc) (auto simp: map_assign_not_Nil)

lemma fold_assign_values:
  "snd ` set (fold (\<lambda>it sm. map_assign (f it) (g it) sm) xs acc) \<subseteq> snd ` set acc \<union> g ` set xs"
proof (induction xs arbitrary: acc)
  case Nil
  show ?case by simp
next
  case (Cons x xs)
  have "snd ` set (fold (\<lambda>it sm. map_assign (f it) (g it) sm) xs (map_assign (f x) (g x) acc))
          \<subseteq> snd ` set (map_assign (f x) (g x) acc) \<union> g ` set xs"
    by (rule Cons.IH)
  also have "\<dots> \<subseteq> insert (g x) (snd ` set acc) \<union> g ` set xs"
    using map_assign_values [of "f x" "g x" acc] by blast
  finally show ?case by auto
qed

lemma sort_map_not_Nil: "cache \<noteq> [] \<Longrightarrow> sort_map cache \<noteq> []"
  unfolding sort_map_def by (rule fold_assign_not_Nil) simp

lemma sort_map_values: "snd ` set (sort_map cache) \<subseteq> fst ` set cache"
  unfolding sort_map_def using fold_assign_values [of _ fst cache "[]"] by simp

lemma erase_oldest_victim:
  assumes "m_Cache c \<noteq> []"
  shows "\<exists>k e. map_of (m_Cache c) k = Some e \<and>
           erase_oldest c = Some (c\<lparr>m_UsedMemory := m_UsedMemory c - fst (snd e),
                                    m_Cache := map_erase k (m_Cache c)\<rparr>)"
proof -
  obtain first rest where sm: "sort_map (m_Cache c) = first # rest"
    using sort_map_not_Nil [OF assms] by (cases "sort_map (m_Cache c)") auto
  then have "snd first \<in> fst ` set (m_Cache c)"
    using sort_map_values [of "m_Cache c"] by auto
  then obtain e where "map_of (m_Cache c) (snd first) = Some e"
    by (metis map_of_eq_None_iff not_Some_eq)
  with sm show ?thesis
    by (intro exI [of _ "snd first"] exI [of _ e]) (simp add: erase_oldest_def)
qed

lemma length_map_erase:
  "map_of m k = Some e \<Longrightarrow> Suc (length (map_erase k m)) = length m"
  by (induction m) (auto split: if_splits)

lemma set_map_erase: "set (map_erase k m) \<subseteq> set m"
  by (induction m) auto

lemma word_bytes_erase:
  "map_of m k = Some e \<Longrightarrow>
     sum_list (map (\<lambda>it. fst (snd (snd it))) (map_erase k m)) + fst (snd e)
       = (sum_list (map (\<lambda>it. fst (snd (snd it))) m) :: 64 word)"
  by (induction m) (auto split: if_splits)

lemma nat_bytes_erase:
  "map_of m k = Some e \<Longrightarrow>
     sum_list (map (\<lambda>it. unat (fst (snd (snd it)))) (map_erase k m)) + unat (fst (snd e))
       = sum_list (map (\<lambda>it. unat (fst (snd (snd it)) :: 64 word)) m)"
  by (induction m) (auto split: if_splits)

lemma word_bytes_assign:
  "map_of m k = None \<Longrightarrow>
     sum_list (map (\<lambda>it. fst (snd (snd it))) (map_assign k (a, s, i) m))
       = (sum_list (map (\<lambda>it. fst (snd (snd it))) m) :: 64 word) + s"
  by (induction m) (auto split: if_splits)

lemma ShrinkCache_returns: "\<exists>c'. ShrinkCache c new_bytes new_images = Some c'"
proof (induction "length (m_Cache c)" arbitrary: c rule: less_induct)
  case less
  show ?case
  proof (cases "IsCacheFull c new_bytes new_images \<and> 0 < length (m_Cache c)")
    case False
    then show ?thesis by (simp add: ShrinkCache_stop)
  next
    case True
    then have "m_Cache c \<noteq> []" by simp
    from erase_oldest_victim [OF this] obtain k e where
      e: "map_of (m_Cache c) k = Some e" and
      c1: "erase_oldest c = Some (c\<lparr>m_UsedMemory := m_UsedMemory c - fst (snd e),
                                    m_Cache := map_erase k (m_Cache c)\<rparr>)" by blast
    let ?c1 = "c\<lparr>m_UsedMemory := m_UsedMemory c - fst (snd e), m_Cache := map_erase k (m_Cache c)\<rparr>"
    have "length (m_Cache ?c1) < length (m_Cache c)"
      using length_map_erase [OF e] by simp
    from less [OF this] obtain c' where "ShrinkCache ?c1 new_bytes new_images = Some c'" by blast
    with True c1 show ?thesis by (simp add: ShrinkCache_iter)
  qed
qed


lemma IsCacheFull_bytes:
  assumes "0 < m_MaxMemory c" "m_MaxMemory c < new_bytes"
    and "unat (m_UsedMemory c) + unat new_bytes < 2 ^ 64"
  shows "IsCacheFull c new_bytes new_images"
proof -
  have "unat (m_UsedMemory c + new_bytes) = unat (m_UsedMemory c) + unat new_bytes"
    using assms(3) by (simp add: unat_add_lem [THEN iffD1])
  moreover have "unat (m_MaxMemory c) < unat new_bytes"
    using assms(2) by (simp add: word_less_nat_alt)
  ultimately have "m_MaxMemory c < m_UsedMemory c + new_bytes"
    by (simp add: word_less_nat_alt)
  with assms(1) show ?thesis by (simp add: IsCacheFull_def)
qed

lemma exact_accounting_erase:
  assumes "exact_accounting c" "map_of (m_Cache c) k = Some e"
  shows "exact_accounting (c\<lparr>m_UsedMemory := m_UsedMemory c - fst (snd e),
                              m_Cache := map_erase k (m_Cache c)\<rparr>)"
    and "unat (m_UsedMemory c - fst (snd e)) \<le> unat (m_UsedMemory c)"
proof -
  have le: "unat (fst (snd e)) \<le> unat (m_UsedMemory c)"
    using assms nat_bytes_erase [OF assms(2)] by (simp add: exact_accounting_def)
  then have sub: "unat (m_UsedMemory c - fst (snd e)) = unat (m_UsedMemory c) - unat (fst (snd e))"
    by (simp add: unat_sub word_le_nat_alt)
  show "unat (m_UsedMemory c - fst (snd e)) \<le> unat (m_UsedMemory c)"
    using sub by simp
  show "exact_accounting (c\<lparr>m_UsedMemory := m_UsedMemory c - fst (snd e),
                              m_Cache := map_erase k (m_Cache c)\<rparr>)"
    using assms(1) nat_bytes_erase [OF assms(2)] sub by (simp add: exact_accounting_def)
qed

lemma ShrinkCache_empties:
  assumes "0 < m_MaxMemory c" "m_MaxMemory c < new_bytes"
    and "exact_accounting c" "unat (m_UsedMemory c) + unat new_bytes < 2 ^ 64"
  shows "ShrinkCache c new_bytes new_images = Some (c\<lparr>m_UsedMemory := 0, m_Cache := []\<rparr>)"
  using assms
proof (induction "length (m_Cache c)" arbitrary: c rule: less_induct)
  case less
  have full: "IsCacheFull c new_bytes new_images"
    using less.prems by (intro IsCacheFull_bytes) simp_all
  show ?case
  proof (cases "m_Cache c = []")
    case True
    then have "m_UsedMemory c = 0"
      using less.prems(3) by (simp add: exact_accounting_def unat_eq_0)
    with True have "c\<lparr>m_UsedMemory := 0, m_Cache := []\<rparr> = c" by simp
    with True show ?thesis by (simp add: ShrinkCache_stop)
  next
    case False
    from erase_oldest_victim [OF this] obtain k e where
      e: "map_of (m_Cache c) k = Some e" and
      c1: "erase_oldest c = Some (c\<lparr>m_UsedMemory := m_UsedMemory c - fst (snd e),
                                    m_Cache := map_erase k (m_Cache c)\<rparr>)" by blast
    let ?c1 = "c\<lparr>m_UsedMemory := m_UsedMemory c - fst (snd e), m_Cache := map_erase k (m_Cache c)\<rparr>"
    have shorter: "length (m_Cache ?c1) < length (m_Cache c)"
      using length_map_erase [OF e] by simp
    have "ShrinkCache ?c1 new_bytes new_images = Some (?c1\<lparr>m_UsedMemory := 0, m_Cache := []\<rparr>)"
    proof (rule less.hyps [OF shorter])
      show "0 < m_MaxMemory ?c1" "m_MaxMemory ?c1 < new_bytes"
        using less.prems by simp_all
      show "exact_accounting ?c1"
        by (rule exact_accounting_erase(1) [OF less.prems(3) e])
      show "unat (m_UsedMemory ?c1) + unat new_bytes < 2 ^ 64"
        using exact_accounting_erase(2) [OF less.prems(3) e] less.prems(4) by simp
    qed
    with full False c1 show ?thesis by (simp add: ShrinkCache_iter)
  qed
qed

lemma GetImage_over_cap:
  assumes "map_of (m_Cache c) filename = None" "reader filename = Some n"
    and "0 < m_MaxMemory c" "m_MaxMemory c < n * t_sizeof T"
    and "exact_accounting c" "unat (m_UsedMemory c) + unat (n * t_sizeof T) < 2 ^ 64"
  shows "GetImage reader T c filename =
           Some (Returns (\<lparr>img_class = t_class T, img_pixels = n\<rparr>,
             c\<lparr>m_Cache := [(filename, m_Counter c, n * t_sizeof T,
                              \<lparr>img_class = t_class T, img_pixels = n\<rparr>)],
               m_Counter := m_Counter c + 1,
               m_UsedMemory := n * t_sizeof T\<rparr>))"
  using assms(1,2) ShrinkCache_empties [OF assms(3-6), of 1]
  by (simp add: GetImage_def Let_def)

lemma IsCacheFull_no_byte_cap:
  "m_MaxMemory c = 0 \<Longrightarrow>
     IsCacheFull c new_bytes new_images =
       (0 < m_MaxImages c \<and>
        (ucast (m_MaxImages c) :: 64 word) < of_nat (length (m_Cache c)) + ucast new_images)"
  by (simp add: IsCacheFull_def)

lemma IsCacheFull_no_count_cap:
  "m_MaxImages c = 0 \<Longrightarrow>
     IsCacheFull c new_bytes new_images =
       (0 < m_MaxMemory c \<and> m_MaxMemory c < m_UsedMemory c + new_bytes)"
  by (simp add: IsCacheFull_def)

lemma accounting_erase_oldest:
  assumes "accounting c" "erase_oldest c = Some c'"
  shows "accounting c'"
proof -
  from assms(2) obtain first rest e where
    "map_of (m_Cache c) (snd first) = Some e"
    "c' = c\<lparr>m_UsedMemory := m_UsedMemory c - fst (snd e),
            m_Cache := map_erase (snd first) (m_Cache c)\<rparr>"
    by (auto simp: erase_oldest_def split: list.splits option.splits)
  then show ?thesis
    using assms(1)
    by (simp add: accounting_def resident_bytes_def
        word_bytes_erase [of "m_Cache c" "snd first" e, symmetric])
qed

lemma ShrinkCache_cases:
  assumes "ShrinkCache c new_bytes new_images = Some c'"
  shows "c' = c \<or> (\<exists>c1. erase_oldest c = Some c1 \<and> length (m_Cache c1) < length (m_Cache c)
                     \<and> ShrinkCache c1 new_bytes new_images = Some c')"
proof (cases "IsCacheFull c new_bytes new_images \<and> 0 < length (m_Cache c)")
  case False
  with assms show ?thesis by (simp add: ShrinkCache_stop)
next
  case True
  then have "m_Cache c \<noteq> []" by simp
  from erase_oldest_victim [OF this] obtain k e where
    e: "map_of (m_Cache c) k = Some e" and
    c1: "erase_oldest c = Some (c\<lparr>m_UsedMemory := m_UsedMemory c - fst (snd e),
                                  m_Cache := map_erase k (m_Cache c)\<rparr>)" by blast
  show ?thesis
    using True assms c1 length_map_erase [OF e] by (simp add: ShrinkCache_iter)
qed

lemma accounting_ShrinkCache:
  "accounting c \<Longrightarrow> ShrinkCache c new_bytes new_images = Some c' \<Longrightarrow> accounting c'"
proof (induction "length (m_Cache c)" arbitrary: c rule: less_induct)
  case less
  from ShrinkCache_cases [OF less.prems(2)] show ?case
  proof
    assume "c' = c"
    with less.prems(1) show ?thesis by simp
  next
    assume "\<exists>c1. erase_oldest c = Some c1 \<and> length (m_Cache c1) < length (m_Cache c)
                     \<and> ShrinkCache c1 new_bytes new_images = Some c'"
    then obtain c1 where c1: "erase_oldest c = Some c1" "length (m_Cache c1) < length (m_Cache c)"
      "ShrinkCache c1 new_bytes new_images = Some c'" by blast
    show ?thesis
      by (rule less.hyps [OF c1(2) accounting_erase_oldest [OF less.prems(1) c1(1)] c1(3)])
  qed
qed

lemma residents_erase_oldest: "erase_oldest c = Some c' \<Longrightarrow> residents c' \<subseteq> residents c"
  using set_map_erase
  by (fastforce simp: erase_oldest_def residents_def split: list.splits option.splits)

lemma residents_ShrinkCache:
  "ShrinkCache c new_bytes new_images = Some c' \<Longrightarrow> residents c' \<subseteq> residents c"
proof (induction "length (m_Cache c)" arbitrary: c rule: less_induct)
  case less
  from ShrinkCache_cases [OF less.prems] show ?case
  proof
    assume "c' = c"
    then show ?thesis by simp
  next
    assume "\<exists>c1. erase_oldest c = Some c1 \<and> length (m_Cache c1) < length (m_Cache c)
                     \<and> ShrinkCache c1 new_bytes new_images = Some c'"
    then obtain c1 where c1: "erase_oldest c = Some c1" "length (m_Cache c1) < length (m_Cache c)"
      "ShrinkCache c1 new_bytes new_images = Some c'" by blast
    from less.hyps [OF c1(2,3)] residents_erase_oldest [OF c1(1)] show ?thesis by blast
  qed
qed

lemma accounting_GetImage:
  assumes "accounting c" "GetImage reader T c filename = Some (Returns (img, c'))"
  shows "accounting c'"
proof (cases "map_of (m_Cache c) filename")
  case (Some it)
  with assms show ?thesis by (simp add: GetImage_def split: if_splits)
next
  case None
  with assms(2) obtain n c1 where
    c1: "ShrinkCache c (n * t_sizeof T) 1 = Some c1" and
    c': "c' = c1\<lparr>m_Cache := map_assign filename
                     (m_Counter c1, n * t_sizeof T, \<lparr>img_class = t_class T, img_pixels = n\<rparr>)
                     (m_Cache c1),
                  m_Counter := m_Counter c1 + 1,
                  m_UsedMemory := m_UsedMemory c1 + n * t_sizeof T\<rparr>"
    by (auto simp: GetImage_def Let_def split: option.splits Option.bind_splits)
  have "filename \<notin> residents c"
    using None by (simp add: residents_def map_of_eq_None_iff)
  with residents_ShrinkCache [OF c1] have "map_of (m_Cache c1) filename = None"
    by (auto simp: residents_def map_of_eq_None_iff)
  then show ?thesis
    using accounting_ShrinkCache [OF assms(1) c1] c'
    by (simp add: accounting_def resident_bytes_def word_bytes_assign)
qed

lemma accounting_PurgeCache: "accounting (PurgeCache c)"
  by (simp add: accounting_def resident_bytes_def PurgeCache_def)


text \<open>
  C9. The eviction loop always terminates (lemma \<open>ShrinkCache_returns\<close>) and a cap of 0
  takes its test out of \<open>IsCacheFull\<close> (lemmas \<open>IsCacheFull_no_byte_cap\<close>,
  \<open>IsCacheFull_no_count_cap\<close>). With a positive byte cap smaller than the image being
  inserted, the loop should empty the cache before \<open>GetImage\<close> inserts the image. It does
  so when \<^verbatim>\<open>m_UsedMemory\<close> is the sum of the resident sizes (lemmas
  \<open>ShrinkCache_empties\<close>, \<open>GetImage_over_cap\<close>), which the constructor does not establish:
  in a cache of byte cap 1000 whose \<^verbatim>\<open>m_UsedMemory\<close> started at \<open>2^64 - 2400\<close>, the image A
  of 800 bytes is still resident after the image C of 1600 bytes has been inserted, the
  sum \<^verbatim>\<open>m_UsedMemory + new_bytes\<close> having wrapped around to 0.
\<close>

theorem C9_stale_UsedMemory_keeps_entries:
  "(0 :: 64 word) < 1000 \<and> (1000 :: 64 word) < 200 * 8
   \<and> m_Cache (ImageCache (2 ^ 64 - 2400) 1000 0) = []
   \<and> m_UsedMemory (ImageCache (2 ^ 64 - 2400) 1000 0) = 2 ^ 64 - 2400
   \<and> map_option (map_outcome residents)
        (GetImage_seq (\<lambda>f. if f = ''A'' then Some 100 else Some 200)
           \<lparr>t_class = 7, t_sizeof = 8\<rparr> (ImageCache (2 ^ 64 - 2400) 1000 0) [''A'', ''C''])
      = Some (Returns {''A'', ''C''})"
  by (simp add: GetImage_def ImageCache_def ShrinkCache_stop ShrinkCache_iter IsCacheFull_def
      erase_oldest_def sort_map_def residents_def Let_def)

text \<open>
  C10. \<^verbatim>\<open>m_UsedMemory\<close> should equal the sum of the sizes of the resident entries from the
  constructor on. \<open>GetImage\<close>, \<open>ShrinkCache\<close> and \<open>PurgeCache\<close> keep or establish the
  equation (lemmas \<open>accounting_GetImage\<close>, \<open>accounting_ShrinkCache\<close>,
  \<open>accounting_PurgeCache\<close>), but the constructor does not initialise the member: a fresh
  cache whose storage held 1 reports one byte in use with nothing resident.
\<close>

theorem C10_constructor_skips_UsedMemory:
  "m_Cache (ImageCache 1 0 20) = [] \<and> m_UsedMemory (ImageCache 1 0 20) = 1
   \<and> \<not> accounting (ImageCache 1 0 20)"
  by (simp add: accounting_def resident_bytes_def ImageCache_def)

text \<open>
  C1. With \<open>max_images = 2\<close> and the byte cap disabled, the requests A, B, A, C should leave
  A and C resident, the hit on A making B the least recently used entry. The code does not
  touch the age of an entry on a hit: the ages stay those of insertion, A is the oldest
  entry when C arrives, and the cache ends with B and C.
\<close>

theorem C1_hit_does_not_refresh:
  "map_option (map_outcome residents)
     (GetImage_seq (\<lambda>f. Some 100) \<lparr>t_class = 7, t_sizeof = 8\<rparr> (ImageCache u 0 2)
        [''A'', ''B'', ''A'', ''C''])
   = Some (Returns {''B'', ''C''})"
  by (simp add: GetImage_def ImageCache_def ShrinkCache_stop ShrinkCache_iter IsCacheFull_def
      erase_oldest_def sort_map_def residents_def Let_def)

section \<open>Properties of the neighbour sets\<close>

lemma add_range_later:
  "0 < n \<Longrightarrow> add_range z zr n cands = takeWhile (\<lambda>x. \<bar>z - fst x\<bar> < zr) cands"
  by (induction cands arbitrary: n) auto

lemma add_range_first: "add_range z zr 0 cands = first_then_within z zr cands"
  by (cases cands) (simp_all add: first_then_within_def add_range_later)

lemma set_set_insert: "set (set_insert x xs) = insert x (set xs)"
  by (induction xs) auto

lemma set_fold_set_insert: "set (fold set_insert xs ys) = set xs \<union> set ys"
  by (induction xs arbitrary: ys) (auto simp: set_set_insert)

lemma length_neighbor_pass: "length (neighbor_pass zr xs nbr) = length nbr"
  by (induction xs arbitrary: nbr) auto

lemma neighbor_pass_other:
  "k \<notin> snd ` set xs \<Longrightarrow> neighbor_pass zr xs nbr ! k = nbr ! k"
  by (induction xs arbitrary: nbr) auto

lemma neighbor_pass_at:
  assumes "distinct (map snd xs)" "p < length xs" "snd (xs ! p) < length nbr"
  shows "set (neighbor_pass zr xs nbr ! snd (xs ! p)) =
           set (add_range (fst (xs ! p)) zr 0 (drop (Suc p) xs)) \<union> set (nbr ! snd (xs ! p))"
  using assms
proof (induction xs arbitrary: nbr p)
  case Nil
  then show ?case by simp
next
  case (Cons x xs)
  show ?case
  proof (cases p)
    case 0
    have "snd x \<notin> snd ` set xs" using Cons.prems(1) by auto
    then show ?thesis
      using 0 Cons.prems(3) by (simp add: neighbor_pass_other set_fold_set_insert)
  next
    case (Suc q)
    have q: "q < length xs" using Suc Cons.prems(2) by simp
    have nx: "snd x \<notin> snd ` set xs"
      using Cons.prems(1) by simp
    have "snd (xs ! q) \<in> snd ` set xs"
      using q by (intro imageI nth_mem)
    with nx have ne: "snd (xs ! q) \<noteq> snd x"
      by metis
    have "set (neighbor_pass zr xs (nbr[snd x := fold set_insert (add_range (fst x) zr 0 xs)
                              (nbr ! snd x)]) ! snd (xs ! q)) =
          set (add_range (fst (xs ! q)) zr 0 (drop (Suc q) xs)) \<union>
          set ((nbr[snd x := fold set_insert (add_range (fst x) zr 0 xs) (nbr ! snd x)])
                 ! snd (xs ! q))"
      using Cons.prems q Suc by (intro Cons.IH) simp_all
    then show ?thesis using Suc ne by simp
  qed
qed

lemma neighbor_sets_at:
  assumes "distinct (map snd xs)" "p < length xs" "\<forall>x\<in>set xs. snd x < n"
  shows "set (neighbor_sets zr xs n ! snd (xs ! p)) =
           set (first_then_within (fst (xs ! p)) zr (drop (Suc p) xs))
           \<union> set (first_then_within (fst (xs ! p)) zr (rev (take p xs)))"
proof -
  let ?k = "snd (xs ! p)"
  let ?fw = "neighbor_pass zr xs (replicate n [])"
  have k: "?k < n" using assms(2,3) by simp
  have fw: "set (?fw ! ?k) = set (add_range (fst (xs ! p)) zr 0 (drop (Suc p) xs))"
    using neighbor_pass_at [OF assms(1,2), of "replicate n []" zr] k by simp
  let ?q = "length xs - Suc p"
  have q: "?q < length (rev xs)" using assms(2) by simp
  have at: "rev xs ! ?q = xs ! p"
    using assms(2) by (simp add: rev_nth)
  have dr: "drop (Suc ?q) (rev xs) = rev (take p xs)"
    using assms(2) by (simp add: drop_rev Suc_diff_Suc)
  have "set (neighbor_pass zr (rev xs) ?fw ! snd (rev xs ! ?q)) =
          set (add_range (fst (rev xs ! ?q)) zr 0 (drop (Suc ?q) (rev xs)))
          \<union> set (?fw ! snd (rev xs ! ?q))"
    using assms(1) q k at
    by (intro neighbor_pass_at) (simp_all add: distinct_rev rev_map [symmetric] length_neighbor_pass)
  then show ?thesis
    unfolding neighbor_sets_def using fw at dr by (simp add: add_range_first Un_commute)
qed

lemma first_then_within_none:
  "\<forall>x\<in>set (tl cands). \<not> \<bar>z - fst x\<bar> < zr \<Longrightarrow> first_then_within z zr cands = take 1 cands"
  by (cases cands; cases "tl cands") (auto simp: first_then_within_def)

text \<open>
  C3 as stated: the walk for a slide goes on until one neighbour has been added and the
  gap to the next candidate exceeds \<open>z_range\<close>, so that a candidate whose gap equals
  \<open>z_range\<close> is still added. With slides at z = 0, 1, 2 and \<open>z_range = 2\<close>, all of them and
  their differences exact in a \<^verbatim>\<open>double\<close>, the slide at 2 is at distance 2 from the slide
  at 0 and is not among its neighbours.
\<close>

theorem C3_equal_gap_counterexample:
  "\<bar>fst (0 :: real, 0 :: nat) - fst (2 :: real, 2 :: nat)\<bar> = 2
   \<and> neighbor_sets (2 :: real) [(0, 0), (1, 1), (2, 2)] 3 ! 0 = [(1, 1)]
   \<and> (2, 2) \<notin> set (neighbor_sets (2 :: real) [(0, 0), (1, 1), (2, 2)] 3 ! 0)"
  by (simp add: neighbor_sets_def)

text \<open>
  C3, amended. For the slide at position \<open>p\<close> of the sorted list, the neighbour set holds,
  in each direction, the first candidate and then the following ones for as long as their
  gap, as the subtraction and \<^verbatim>\<open>fabs\<close> of the arithmetic compute it, is strictly below
  \<open>z_range\<close>: the walk stops once a neighbour has been added and the computed gap to the
  next candidate is at least \<open>z_range\<close>. With \<open>z_range = 0\<close>, no computed gap being
  negative, the set is the immediate successor and the immediate predecessor, where they
  exist.
\<close>

theorem C3_neighbor_walk:
  fixes z_range :: "'z::{linorder,minus,abs,zero}"
  assumes "distinct (map snd sorted_slices)" and "p < length sorted_slices"
    and "\<forall>x\<in>set sorted_slices. snd x < n"
  shows "set (neighbor_sets z_range sorted_slices n ! snd (sorted_slices ! p)) =
           set (first_then_within (fst (sorted_slices ! p)) z_range
                  (drop (Suc p) sorted_slices))
           \<union> set (first_then_within (fst (sorted_slices ! p)) z_range
                  (rev (take p sorted_slices)))
       \<and> (z_range = 0 \<and> (\<forall>a :: 'z. \<not> \<bar>a\<bar> < 0) \<longrightarrow>
            set (neighbor_sets z_range sorted_slices n ! snd (sorted_slices ! p)) =
              set (take 1 (drop (Suc p) sorted_slices))
              \<union> set (take 1 (rev (take p sorted_slices))))"
proof (intro conjI impI)
  show "set (neighbor_sets z_range sorted_slices n ! snd (sorted_slices ! p)) =
           set (first_then_within (fst (sorted_slices ! p)) z_range
                  (drop (Suc p) sorted_slices))
           \<union> set (first_then_within (fst (sorted_slices ! p)) z_range
                  (rev (take p sorted_slices)))"
    by (rule neighbor_sets_at [OF assms])
next
  assume "z_range = 0 \<and> (\<forall>a :: 'z. \<not> \<bar>a\<bar> < 0)"
  then have none: "\<And>z cands. \<forall>x\<in>set (tl cands). \<not> \<bar>z - fst x\<bar> < z_range"
    by simp
  show "set (neighbor_sets z_range sorted_slices n ! snd (sorted_slices ! p)) =
              set (take 1 (drop (Suc p) sorted_slices))
              \<union> set (take 1 (rev (take p sorted_slices)))"
    using neighbor_sets_at [OF assms, of z_range]
    by (simp only: first_then_within_none [OF none])
qed

theorem C3_neighbor_walk_witness:
  "distinct (map snd [(0 :: real, 2 :: nat), (1, 0), (2, 1), (5, 3)])
   \<and> (1 :: nat) < length [(0 :: real, 2 :: nat), (1, 0), (2, 1), (5, 3)]
   \<and> list_all (\<lambda>x. snd x < 4) [(0 :: real, 2 :: nat), (1, 0), (2, 1), (5, 3)]
   \<and> (\<forall>a :: real. \<not> \<bar>a\<bar> < 0)
   \<and> set (neighbor_sets (0 :: real) [(0, 2), (1, 0), (2, 1), (5, 3)] 4 ! 0) = {(0, 2), (2, 1)}
   \<and> set (neighbor_sets (3 :: real) [(0, 2), (1, 0), (2, 1), (5, 3)] 4 ! 0) = {(0, 2), (2, 1)}
   \<and> set (neighbor_sets (5 :: real) [(0, 2), (1, 0), (2, 1), (5, 3)] 4 ! 0)
       = {(0, 2), (2, 1), (5, 3)}"
  using
    C3_neighbor_walk [of "[(0, 2), (1, 0), (2, 1), (5, 3)]" 1 4 "0 :: real"]
    C3_neighbor_walk [of "[(0, 2), (1, 0), (2, 1), (5, 3)]" 1 4 "3 :: real"]
    C3_neighbor_walk [of "[(0, 2), (1, 0), (2, 1), (5, 3)]" 1 4 "5 :: real"]
  by (simp add: first_then_within_def insert_commute)


section \<open>Properties of the root selection\<close>

lemma select_loop:
  fixes T :: "nat \<Rightarrow> 'w::{zero,linorder}"
  defines "step \<equiv> (\<lambda>i (r, b). if i = 0 \<or> T i < b then (i, T i) else (r, b))"
  assumes "0 < m"
  shows "fst (fold step [0..<m] (0, 0)) < m
       \<and> snd (fold step [0..<m] (0, 0)) = T (fst (fold step [0..<m] (0, 0)))
       \<and> (\<forall>i<m. T (fst (fold step [0..<m] (0, 0))) \<le> T i)
       \<and> (\<forall>i<fst (fold step [0..<m] (0, 0)). T (fst (fold step [0..<m] (0, 0))) < T i)"
  using assms(2)
proof (induction m)
  case 0
  then show ?case by simp
next
  case (Suc m)
  show ?case
  proof (cases "m = 0")
    case True
    then show ?thesis by (simp add: step_def)
  next
    case False
    then have IH: "fst (fold step [0..<m] (0, 0)) < m
       \<and> snd (fold step [0..<m] (0, 0)) = T (fst (fold step [0..<m] (0, 0)))
       \<and> (\<forall>i<m. T (fst (fold step [0..<m] (0, 0))) \<le> T i)
       \<and> (\<forall>i<fst (fold step [0..<m] (0, 0)). T (fst (fold step [0..<m] (0, 0))) < T i)"
      using Suc.IH by simp
    obtain r b where rb: "fold step [0..<m] (0, 0) = (r, b)"
      by (cases "fold step [0..<m] (0, 0)")
    show ?thesis
    proof (cases "T m < b")
      case True
      then have "fold step [0..<Suc m] (0, 0) = (m, T m)"
        using rb by (simp add: step_def)
      moreover have "\<forall>i<Suc m. T m \<le> T i"
        using IH rb True by (auto simp: less_Suc_eq)
      moreover have "\<forall>i<m. T m < T i"
        using IH rb True by (auto simp: less_Suc_eq intro: less_le_trans)
      ultimately show ?thesis by simp
    next
      case notless: False
      then have "fold step [0..<Suc m] (0, 0) = (r, b)"
        using rb False by (simp add: step_def)
      moreover have "\<forall>i<Suc m. T r \<le> T i"
        using IH rb notless by (auto simp: less_Suc_eq)
      ultimately show ?thesis using IH rb by simp
    qed
  qed
qed


text \<open>
  C4. The root chosen by \<open>ReconstructStack\<close> minimises the total distance to all slides:
  no slide has a smaller total, and every slide of lower index has a strictly larger one.
\<close>

theorem C4_root_minimises_total_distance:
  assumes "0 < n"
  shows "fst (select_root d n) < n
       \<and> snd (select_root d n) = root_dist d n (fst (select_root d n))
       \<and> (\<forall>i<n. root_dist d n (fst (select_root d n)) \<le> root_dist d n i)
       \<and> (\<forall>i<fst (select_root d n).
            root_dist d n (fst (select_root d n)) < root_dist d n i)"
  unfolding select_root_def by (rule select_loop [OF assms])

theorem C4_root_minimises_total_distance_witness:
  "(0 :: nat) < 3
   \<and> select_root (\<lambda>i j. [[0, 1, 2], [1, 0, 1], [2, 1, 0 :: real]] ! i ! j) 3 = (1, 2)
   \<and> root_dist (\<lambda>i j. [[0, 1, 2], [1, 0, 1], [2, 1, 0 :: real]] ! i ! j) 3 1
       < root_dist (\<lambda>i j. [[0, 1, 2], [1, 0, 1], [2, 1, 0 :: real]] ! i ! j) 3 0
   \<and> root_dist (\<lambda>i j. [[0, 1, 2], [1, 0, 1], [2, 1, 0 :: real]] ! i ! j) 3 1
       \<le> root_dist (\<lambda>i j. [[0, 1, 2], [1, 0, 1], [2, 1, 0 :: real]] ! i ! j) 3 2"
proof -
  have sel: "select_root (\<lambda>i j. [[0, 1, 2], [1, 0, 1], [2, 1, 0 :: real]] ! i ! j) 3 = (1, 2)"
    by (simp add: select_root_def root_dist_def upt_rec)
  show ?thesis
    using C4_root_minimises_total_distance
      [of 3 "\<lambda>i j. [[0, 1, 2], [1, 0, 1], [2, 1, 0 :: real]] ! i ! j"]
    by (auto simp: sel)
qed

section \<open>Properties of the median affine\<close>

lemma concat_mat_sub:
  "map length X = map length Y \<Longrightarrow>
     concat (mat_sub X Y) = map (\<lambda>(x, y). x - y) (zip (concat X) (concat Y))"
proof (induction X arbitrary: Y)
  case Nil
  then show ?case by (simp add: mat_sub_def)
next
  case (Cons r X)
  then obtain q Y' where Y: "Y = q # Y'" "length r = length q" "map length X = map length Y'"
    by (cases Y) auto
  from Cons.IH [OF Y(3)] Y(1,2) show ?case
    by (simp add: mat_sub_def)
qed

lemma array_one_norm_mat_sub:
  fixes X Y :: "'d::{zero,plus,minus,abs} matrix"
  assumes "map length X = map length Y"
  shows "array_one_norm (mat_sub X Y) = L1_distance X Y"
proof -
  have eq: "(\<lambda>(x :: 'd) acc. acc + \<bar>x\<bar>) \<circ> (\<lambda>(x, y). x - y) = (\<lambda>(x, y) acc. acc + \<bar>x - y\<bar>)"
    by (auto simp: fun_eq_iff)
  show ?thesis
    by (simp only: array_one_norm_def L1_distance_def concat_mat_sub [OF assms] fold_map eq)
qed

lemma fold_zip_commute:
  fixes h :: "'a \<Rightarrow> 'a \<Rightarrow> 'b::plus"
  assumes "\<forall>a b. h a b = h b a"
  shows "fold (\<lambda>(x, y) acc. acc + h x y) (zip xs ys) a
           = fold (\<lambda>(x, y) acc. acc + h x y) (zip ys xs) a"
proof (induction xs arbitrary: ys a)
  case Nil
  show ?case by simp
next
  case (Cons x xs)
  show ?case
  proof (cases ys)
    case Nil
    then show ?thesis by simp
  next
    case (Cons y ys')
    have "h x y = h y x" using assms by blast
    with Cons Cons.IH [of ys' "a + h y x"] show ?thesis by simp
  qed
qed

lemma L1_distance_commute:
  fixes X Y :: "'d::{zero,plus,minus,abs} matrix"
  assumes "\<forall>a b :: 'd. \<bar>a - b\<bar> = \<bar>b - a\<bar>"
  shows "L1_distance X Y = L1_distance Y X"
  unfolding L1_distance_def
  by (rule fold_zip_commute [where h = "\<lambda>a b :: 'd. \<bar>a - b\<bar>", OF assms])

lemma aff_dist_L1:
  fixes vol_affine :: "'d::{zero,plus,minus,abs} matrix list"
  assumes "map length (vol_affine ! j) = map length (vol_affine ! i)"
    and "\<forall>a b :: 'd. \<bar>a - b\<bar> = \<bar>b - a\<bar>"
  shows "aff_dist vol_affine j i
           = (if i = j then 0 else L1_distance (vol_affine ! j) (vol_affine ! i))"
proof -
  consider "i < j" | "j < i" | "i = j" by linarith
  then show ?thesis
  proof cases
    case 1
    then show ?thesis
      by (simp add: aff_dist_def array_one_norm_mat_sub [OF assms(1)])
  next
    case 2
    then show ?thesis
      using L1_distance_commute [OF assms(2), of "vol_affine ! i" "vol_affine ! j"]
      by (simp add: aff_dist_def array_one_norm_mat_sub [OF assms(1) [symmetric]])
  next
    case 3
    then show ?thesis by (simp add: aff_dist_def)
  qed
qed

lemma row_sums_nth:
  fixes vol_affine :: "'d::{zero,one,plus,minus,times,abs} matrix list"
  assumes "j < length vol_affine"
    and "\<forall>M\<in>set vol_affine. map length M = [3, 3, 3]"
    and "\<forall>a b :: 'd. \<bar>a - b\<bar> = \<bar>b - a\<bar>" and "\<forall>a :: 'd. a * 1 = a"
  shows "row_sums vol_affine ! j = total_distance vol_affine j"
proof -
  have "fold (\<lambda>i acc. acc + aff_dist vol_affine j i * 1) [0..<length vol_affine] 0
          = fold (\<lambda>i acc. acc + (if i = j then 0
                                   else L1_distance (vol_affine ! j) (vol_affine ! i)))
              [0..<length vol_affine] 0"
  proof (rule fold_cong [OF refl refl])
    fix i assume "i \<in> set [0..<length vol_affine]"
    then have "map length (vol_affine ! j) = map length (vol_affine ! i)"
      using assms(1,2) by simp
    from aff_dist_L1 [OF this assms(3)] assms(4)
    show "(\<lambda>acc. acc + aff_dist vol_affine j i * 1)
            = (\<lambda>acc. acc + (if i = j then 0
                             else L1_distance (vol_affine ! j) (vol_affine ! i)))"
      by simp
  qed
  then show ?thesis
    using assms(1) by (simp add: row_sums_def total_distance_def)
qed

lemma length_row_sums: "length (row_sums vol_affine) = length vol_affine"
  by (simp add: row_sums_def)

lemma fold_min_least:
  "fold (\<lambda>y tmp. if y < tmp then y else tmp) xs (x :: 'a::linorder) \<in> set (x # xs)
   \<and> (\<forall>y\<in>set (x # xs). fold (\<lambda>y tmp. if y < tmp then y else tmp) xs x \<le> y)"
proof (induction xs arbitrary: x)
  case Nil
  show ?case by simp
next
  case (Cons a xs)
  show ?case using Cons.IH [of "if a < x then a else x"] by (auto split: if_splits)
qed

lemma min_value_least:
  assumes "xs \<noteq> []"
  shows "\<exists>m. min_value xs = Some m \<and> m \<in> set xs \<and> (\<forall>y\<in>set xs. m \<le> y)"
proof -
  obtain x xs' where "xs = x # xs'" using assms by (cases xs) auto
  then show ?thesis using fold_min_least [of xs' x] by simp
qed

lemma find_index_first:
  "v \<in> set xs \<Longrightarrow>
     find_index v xs < length xs \<and> xs ! find_index v xs = v
     \<and> (\<forall>k<find_index v xs. xs ! k \<noteq> v)"
proof (induction xs)
  case Nil
  then show ?case by simp
next
  case (Cons x xs)
  show ?case
  proof (cases "x = v")
    case True
    then show ?thesis by simp
  next
    case False
    with Cons have IH: "find_index v xs < length xs \<and> xs ! find_index v xs = v
     \<and> (\<forall>k<find_index v xs. xs ! k \<noteq> v)" by simp
    show ?thesis
    proof (intro conjI allI impI)
      show "find_index v (x # xs) < length (x # xs)" using False IH by simp
      show "(x # xs) ! find_index v (x # xs) = v" using False IH by simp
      fix k assume "k < find_index v (x # xs)"
      then show "(x # xs) ! k \<noteq> v" using False IH by (cases k) auto
    qed
  qed
qed

lemma idx_best_least:
  assumes "vol_affine \<noteq> []"
  shows "\<exists>b. idx_best vol_affine = Some b \<and> b < length vol_affine
           \<and> (\<forall>j<length vol_affine. row_sums vol_affine ! b \<le> row_sums vol_affine ! j)
           \<and> (\<forall>j<b. row_sums vol_affine ! b < row_sums vol_affine ! j)"
proof -
  let ?rs = "row_sums vol_affine"
  have "?rs \<noteq> []" using assms length_row_sums [of vol_affine] by auto
  from min_value_least [OF this] obtain m where
    m: "min_value ?rs = Some m" "m \<in> set ?rs" "\<forall>y\<in>set ?rs. m \<le> y" by blast
  let ?b = "find_index m ?rs"
  have b: "?b < length ?rs" "?rs ! ?b = m" "\<forall>k<?b. ?rs ! k \<noteq> m"
    using find_index_first [OF m(2)] by simp_all
  have le: "\<forall>j<length vol_affine. m \<le> ?rs ! j"
    using m(3) by (simp add: length_row_sums)
  have "\<forall>j<?b. m < ?rs ! j"
  proof (intro allI impI)
    fix j assume j: "j < ?b"
    then have "j < length vol_affine" using b(1) by (simp add: length_row_sums)
    with le have "m \<le> ?rs ! j" by simp
    moreover have "?rs ! j \<noteq> m" using b(3) j by simp
    ultimately show "m < ?rs ! j" by simp
  qed
  with b le m(1) show ?thesis by (simp add: idx_best_def length_row_sums)
qed

text \<open>
  C5. The median affine of \<open>InitialMatchToVolume\<close> is one of the per-slide affines, the one
  at \<open>idx_best\<close>. Its summed entry-wise L1 distance to all per-slide affines, each distance
  and each sum as the arithmetic of \<^verbatim>\<open>double\<close> accumulates it, is at most that of every
  per-slide affine, and strictly below that of every one of lower index. Of the arithmetic
  the proof uses that \<open>\<bar>a - b\<bar> = \<bar>b - a\<bar>\<close> and that \<open>a * 1 = a\<close>, and of the matrices that
  they are 3 by 3.
\<close>

theorem C5_median_is_medoid:
  fixes vol_affine :: "'d::{linorder,zero,one,plus,minus,times,abs} matrix list"
  assumes "vol_affine \<noteq> []"
    and "\<forall>M\<in>set vol_affine. map length M = [3, 3, 3]"
    and "\<forall>a b :: 'd. \<bar>a - b\<bar> = \<bar>b - a\<bar>" and "\<forall>a :: 'd. a * 1 = a"
  shows "\<exists>b. idx_best vol_affine = Some b \<and> b < length vol_affine
     \<and> median_affine vol_affine = Some (vol_affine ! b)
     \<and> (\<forall>j<length vol_affine. total_distance vol_affine b \<le> total_distance vol_affine j)
     \<and> (\<forall>j<b. total_distance vol_affine b < total_distance vol_affine j)"
proof -
  from idx_best_least [OF assms(1)] obtain b where
    b: "idx_best vol_affine = Some b" "b < length vol_affine"
      "\<forall>j<length vol_affine. row_sums vol_affine ! b \<le> row_sums vol_affine ! j"
      "\<forall>j<b. row_sums vol_affine ! b < row_sums vol_affine ! j" by blast
  have med: "median_affine vol_affine = Some (vol_affine ! b)"
    using b(1,2) by (simp add: median_affine_def)
  have rs: "\<And>j. j < length vol_affine \<Longrightarrow> row_sums vol_affine ! j = total_distance vol_affine j"
    by (rule row_sums_nth [OF _ assms(2,3,4)])
  have lt: "\<And>j. j < b \<Longrightarrow> j < length vol_affine" using b(2) by simp
  show ?thesis
    using b med by (intro exI [of _ b]) (simp add: rs [symmetric] lt)
qed

theorem C5_median_is_medoid_witness:
  "[[[1, 0, 10], [0, 1, 0], [0, 0, 1]], [[1, 0, 0], [0, 1, 0], [0, 0, 1]],
    [[1, 0, 1], [0, 1, 0], [0, 0, 1 :: real]]] \<noteq> []
   \<and> list_all (\<lambda>M. map length M = [3, 3, 3])
        [[[1, 0, 10], [0, 1, 0], [0, 0, 1]], [[1, 0, 0], [0, 1, 0], [0, 0, 1]],
         [[1, 0, 1], [0, 1, 0], [0, 0, 1 :: real]]]
   \<and> (\<forall>a b :: real. \<bar>a - b\<bar> = \<bar>b - a\<bar>) \<and> (\<forall>a :: real. a * 1 = a)
   \<and> idx_best [[[1, 0, 10], [0, 1, 0], [0, 0, 1]], [[1, 0, 0], [0, 1, 0], [0, 0, 1]],
                [[1, 0, 1], [0, 1, 0], [0, 0, 1 :: real]]] = Some 2
   \<and> median_affine [[[1, 0, 10], [0, 1, 0], [0, 0, 1]], [[1, 0, 0], [0, 1, 0], [0, 0, 1]],
                     [[1, 0, 1], [0, 1, 0], [0, 0, 1 :: real]]]
       = Some [[1, 0, 1], [0, 1, 0], [0, 0, 1]]
   \<and> map (total_distance
             [[[1, 0, 10], [0, 1, 0], [0, 0, 1]], [[1, 0, 0], [0, 1, 0], [0, 0, 1]],
              [[1, 0, 1], [0, 1, 0], [0, 0, 1 :: real]]]) [0, 1, 2] = [19, 11, 10]"
proof -
  have td: "map (total_distance
             [[[1, 0, 10], [0, 1, 0], [0, 0, 1]], [[1, 0, 0], [0, 1, 0], [0, 0, 1]],
              [[1, 0, 1], [0, 1, 0], [0, 0, 1 :: real]]]) [0, 1, 2] = [19, 11, 10]"
    by (simp add: total_distance_def L1_distance_def upt_rec)
  have less: "\<forall>j<2. total_distance
             [[[1, 0, 10], [0, 1, 0], [0, 0, 1]], [[1, 0, 0], [0, 1, 0], [0, 0, 1]],
              [[1, 0, 1], [0, 1, 0], [0, 0, 1 :: real]]] 2
          < total_distance
             [[[1, 0, 10], [0, 1, 0], [0, 0, 1]], [[1, 0, 0], [0, 1, 0], [0, 0, 1]],
              [[1, 0, 1], [0, 1, 0], [0, 0, 1 :: real]]] j"
    using td by (auto simp: less_Suc_eq numeral_2_eq_2)
  have sym: "\<forall>a b :: real. \<bar>a - b\<bar> = \<bar>b - a\<bar>" by (simp add: abs_minus_commute)
  show ?thesis
    using C5_median_is_medoid [of
      "[[[1, 0, 10], [0, 1, 0], [0, 0, 1]], [[1, 0, 0], [0, 1, 0], [0, 0, 1]],
        [[1, 0, 1], [0, 1, 0], [0, 0, 1 :: real]]]"] td sym
    by (simp add: idx_best_def median_affine_def row_sums_def aff_dist_def array_one_norm_def
        mat_sub_def upt_rec)
qed


section \<open>Properties of the initial transforms\<close>

lemma accum_matrix_name:
  "GetFilenameForSlice P s ACCUM_MATRIX k =
     Returns (m_ProjectDir P @ ''/recon/accum/accum_affine_'' @ unique_id s @ ''.mat'')"
  by (simp add: GetFilenameForSlice_def)

lemma vol_init_matrix_name:
  "GetFilenameForSlice P s VOL_INIT_MATRIX k =
     Returns (m_ProjectDir P @ ''/vol/match/affine_refvol_mov_'' @ unique_id s @ ''.mat'')"
  by (simp add: GetFilenameForSlice_def)

lemma iter0_matrix_name:
  "GetFilenameForSlice P s VOL_ITER_MATRIX 0 =
     Returns (m_ProjectDir P @ ''/vol/iter00/affine_refvol_mov_'' @ unique_id s
                @ ''_iter00.mat'')"
  by (simp add: GetFilenameForSlice_def printf_02d_def printf_d_def digit_def)

lemma median_matrix_name:
  "GetFilenameForGlobal P VOL_MEDIAN_INIT_MATRIX key =
     Returns (m_ProjectDir P @ ''/vol/match/affine_refvol_median.mat'')"
  by (simp add: GetFilenameForGlobal_def)

lemma and_then_Returns:
  "and_then x f = Returns y \<longleftrightarrow> (\<exists>v. x = Returns v \<and> f v = Returns y)"
  by (cases x) auto

lemma write_initial_transforms_result:
  assumes "write_initial_transforms P median ss fs = Returns fs'"
  shows "(\<forall>s\<in>set ss. \<exists>Ma.
            fs (m_ProjectDir P @ ''/recon/accum/accum_affine_'' @ unique_id s @ ''.mat'')
              = Some Ma
            \<and> fs' (m_ProjectDir P @ ''/vol/iter00/affine_refvol_mov_'' @ unique_id s
                     @ ''_iter00.mat'') = Some (mat_mult Ma median))
       \<and> (\<forall>x. x \<notin> (\<lambda>s. m_ProjectDir P @ ''/vol/iter00/affine_refvol_mov_'' @ unique_id s
                           @ ''_iter00.mat'') ` set ss \<longrightarrow> fs' x = fs x)"
  using assms
proof (induction ss arbitrary: fs)
  case Nil
  then show ?case by simp
next
  case (Cons s ss)
  let ?A = "\<lambda>s. m_ProjectDir P @ ''/recon/accum/accum_affine_'' @ unique_id s @ ''.mat''"
  let ?I = "\<lambda>s. m_ProjectDir P @ ''/vol/iter00/affine_refvol_mov_'' @ unique_id s
                    @ ''_iter00.mat''"
  from Cons.prems obtain Ma where
    Ma: "fs (?A s) = Some Ma" and
    rest: "write_initial_transforms P median ss (fs(?I s \<mapsto> mat_mult Ma median)) = Returns fs'"
    by (auto simp: accum_matrix_name iter0_matrix_name and_then_Returns ReadAffineMatrix_def
        WriteAffineMatrix_def split: option.splits)
  let ?fs1 = "fs(?I s \<mapsto> mat_mult Ma median)"
  from Cons.IH [OF rest] have
    IH1: "\<forall>t\<in>set ss. \<exists>Mb. ?fs1 (?A t) = Some Mb \<and> fs' (?I t) = Some (mat_mult Mb median)" and
    IH2: "\<forall>x. x \<notin> ?I ` set ss \<longrightarrow> fs' x = ?fs1 x"
    by blast+
  have AI: "\<And>t. ?A t \<noteq> ?I s" by simp
  have tail: "\<forall>t\<in>set ss. \<exists>Mb. fs (?A t) = Some Mb \<and> fs' (?I t) = Some (mat_mult Mb median)"
    using IH1 AI by (simp add: fun_upd_def)
  have head: "fs' (?I s) = Some (mat_mult Ma median)"
  proof (cases "?I s \<in> ?I ` set ss")
    case True
    then obtain t where t: "t \<in> set ss" "?I t = ?I s" by auto
    then have "unique_id t = unique_id s" by simp
    then have "?A t = ?A s" by simp
    with tail t(1) Ma have "fs' (?I t) = Some (mat_mult Ma median)" by fastforce
    with t(2) show ?thesis by simp
  next
    case False
    with IH2 have "fs' (?I s) = ?fs1 (?I s)" by blast
    then show ?thesis by simp
  qed
  have frame: "\<forall>x. x \<notin> ?I ` set (s # ss) \<longrightarrow> fs' x = fs x"
    using IH2 by auto
  from Ma head tail frame show ?case by auto
qed

text \<open>
  C8. When \<open>InitialMatchToVolume\<close> returns, the matrix it has written as the transform of
  iteration 0 of every slide is the product of the slide's accumulated transform, as the
  file of intent \<open>ACCUM_MATRIX\<close> held it on entry, and the median affine, in that order.
\<close>

theorem C8_iteration0_transform:
  assumes "InitialMatchToVolume P fs = Some (Returns fs')"
  shows "\<exists>vol_affine median.
           read_vol_affine P fs (m_Slices P) = Returns vol_affine
           \<and> median_affine vol_affine = Some median
           \<and> (\<forall>s\<in>set (m_Slices P). \<exists>fn_accum fn_iter0 Ma.
                GetFilenameForSlice P s ACCUM_MATRIX 0 = Returns fn_accum
                \<and> GetFilenameForSlice P s VOL_ITER_MATRIX 0 = Returns fn_iter0
                \<and> ReadAffineMatrix fs fn_accum = Returns Ma
                \<and> ReadAffineMatrix fs' fn_iter0 = Returns (mat_mult Ma median))"
proof -
  let ?A = "\<lambda>s. m_ProjectDir P @ ''/recon/accum/accum_affine_'' @ unique_id s @ ''.mat''"
  let ?I = "\<lambda>s. m_ProjectDir P @ ''/vol/iter00/affine_refvol_mov_'' @ unique_id s
                    @ ''_iter00.mat''"
  let ?M = "m_ProjectDir P @ ''/vol/match/affine_refvol_median.mat''"
  from assms obtain vol_affine median where
    va: "read_vol_affine P fs (m_Slices P) = Returns vol_affine" and
    med: "median_affine vol_affine = Some median" and
    wr: "write_initial_transforms P median (m_Slices P) (fs(?M \<mapsto> median)) = Returns fs'"
    by (auto simp: InitialMatchToVolume_def median_matrix_name WriteAffineMatrix_def
        split: outcome.splits option.splits)
  from write_initial_transforms_result [OF wr] have
    "\<forall>s\<in>set (m_Slices P). \<exists>Ma.
        (fs(?M \<mapsto> median)) (?A s) = Some Ma \<and> fs' (?I s) = Some (mat_mult Ma median)"
    by blast
  moreover have "\<And>s. ?A s \<noteq> ?M" by simp
  ultimately have
    "\<forall>s\<in>set (m_Slices P). \<exists>Ma. fs (?A s) = Some Ma \<and> fs' (?I s) = Some (mat_mult Ma median)"
    by (simp add: fun_upd_def)
  then have "\<forall>s\<in>set (m_Slices P). \<exists>fn_accum fn_iter0 Ma.
                GetFilenameForSlice P s ACCUM_MATRIX 0 = Returns fn_accum
                \<and> GetFilenameForSlice P s VOL_ITER_MATRIX 0 = Returns fn_iter0
                \<and> ReadAffineMatrix fs fn_accum = Returns Ma
                \<and> ReadAffineMatrix fs' fn_iter0 = Returns (mat_mult Ma median)"
    by (fastforce simp: accum_matrix_name iter0_matrix_name ReadAffineMatrix_def)
  with va med show ?thesis by blast
qed


theorem C8_iteration0_transform_witness:
  "InitialMatchToVolume example_project example_files
     = Some (Returns (example_files
         (''p/vol/match/affine_refvol_median.mat'' \<mapsto> [[1, 0, 5], [0, 1, 7], [0, 0, 1]],
          ''p/vol/iter00/affine_refvol_mov_a_iter00.mat'' \<mapsto>
             [[1, 0, 5], [0, 1, 7], [0, 0, 1]],
          ''p/vol/iter00/affine_refvol_mov_b_iter00.mat'' \<mapsto>
             [[0, - 1, - 5], [1, 0, 8], [0, 0, 1]])))
   \<and> mat_mult [[0, - 1, 2], [1, 0, 3], [0, 0, 1]] [[1, 0, 5], [0, 1, 7], [0, 0, 1]]
       = [[0, - 1, - 5], [1, 0, 8], [0, 0, 1 :: real]]"
  using C8_iteration0_transform [of example_project example_files
      "example_files
         (''p/vol/match/affine_refvol_median.mat'' \<mapsto> [[1, 0, 5], [0, 1, 7], [0, 0, 1]],
          ''p/vol/iter00/affine_refvol_mov_a_iter00.mat'' \<mapsto>
             [[1, 0, 5], [0, 1, 7], [0, 0, 1]],
          ''p/vol/iter00/affine_refvol_mov_b_iter00.mat'' \<mapsto>
             [[0, - 1, - 5], [1, 0, 8], [0, 0, 1]])"]
  by (simp add: InitialMatchToVolume_def example_project_def example_files_def
      vol_init_matrix_name accum_matrix_name iter0_matrix_name median_matrix_name
      ReadAffineMatrix_def WriteAffineMatrix_def
      median_affine_def idx_best_def row_sums_def aff_dist_def array_one_norm_def mat_sub_def
      upt_rec mat_mult_def transpose.simps)


section \<open>Properties of the iterative refinement\<close>

lemma iter_matrix_name:
  "GetFilenameForSlice P s VOL_ITER_MATRIX k =
     Returns (m_ProjectDir P @ ''/vol/iter'' @ printf_02d k @ ''/affine_refvol_mov_''
                @ unique_id s @ ''_iter'' @ printf_02d k @ ''.mat'')"
  by (simp add: GetFilenameForSlice_def)

lemma iter_warp_name:
  "GetFilenameForSlice P s VOL_ITER_WARP k =
     Returns (m_ProjectDir P @ ''/vol/iter'' @ printf_02d k @ ''/warp_refvol_mov_''
                @ unique_id s @ ''_iter'' @ printf_02d k @ ''.'' @ m_DefaultImageExt P)"
  by (simp add: GetFilenameForSlice_def)

lemma iteration_in_range:
  assumes "check_iteration_range n_affine n_deform i_first i_last = Returns ()"
    and "i_first \<le> iter" and "iter \<le> i_last"
  shows "iter \<noteq> 0" and "unat (iter - 1) = unat iter - 1"
    and "iter - 1 \<le> n_affine \<longleftrightarrow> unat iter - 1 \<le> unat n_affine"
proof -
  have "i_first \<noteq> 0"
    using assms(1) by (auto simp: check_iteration_range_def split: if_splits)
  with assms(2) show nz: "iter \<noteq> 0" by auto
  then show sub: "unat (iter - 1) = unat iter - 1" by (rule unat_minus_one)
  show "iter - 1 \<le> n_affine \<longleftrightarrow> unat iter - 1 \<le> unat n_affine"
    by (simp add: word_le_nat_alt sub)
qed

text \<open>
  C7. In an iteration \<open>iter\<close> of the range that passed the check, \<open>iter - 1\<close> does not wrap
  around. The neighbour \<open>j\<close> is resliced with the single affine file of iteration
  \<open>iter - 1\<close> when \<open>iter - 1 \<le> n_affine\<close>, and otherwise with the warp of iteration
  \<open>iter - 1\<close> followed in the list by the affine file of iteration \<open>n_affine\<close>. In both
  cases the first transform is the file the previous iteration has written for \<open>j\<close>.
\<close>

theorem C7_reslice_transforms:
  assumes "check_iteration_range n_affine n_deform i_first i_last = Returns ()"
    and "i_first \<le> iter" and "iter \<le> i_last"
  shows "unat (iter - 1) = unat iter - 1
     \<and> (unat iter - 1 \<le> unat n_affine \<longrightarrow>
          (\<exists>fn_matrix.
             GetFilenameForSlice P slide_j VOL_ITER_MATRIX (sint (iter - 1)) = Returns fn_matrix
             \<and> reslice_transforms P n_affine iter slide_j = Returns [fn_matrix]))
     \<and> (\<not> unat iter - 1 \<le> unat n_affine \<longrightarrow>
          (\<exists>fn_warp fn_matrix.
             GetFilenameForSlice P slide_j VOL_ITER_WARP (sint (iter - 1)) = Returns fn_warp
             \<and> GetFilenameForSlice P slide_j VOL_ITER_MATRIX (sint n_affine) = Returns fn_matrix
             \<and> reslice_transforms P n_affine iter slide_j = Returns [fn_warp, fn_matrix]))
     \<and> (\<exists>fn rest. reslice_transforms P n_affine iter slide_j = Returns (fn # rest)
            \<and> fn_result P n_affine (iter - 1) slide_j = Returns fn)"
proof -
  note r = iteration_in_range [OF assms]
  show ?thesis
    using r(2,3)
    by (simp add: reslice_transforms_def fn_result_def iter_matrix_name iter_warp_name)
qed


theorem C7_reslice_transforms_witness:
  "check_iteration_range 1 2 1 3 = Returns () \<and> (1 :: 32 word) \<le> 3 \<and> (3 :: 32 word) \<le> 3
   \<and> reslice_transforms example_project 1 3
        \<lparr>raw_filename = ''/b.png'', unique_id = ''b'', z_pos = 1\<rparr>
      = Returns [''p/vol/iter02/warp_refvol_mov_b_iter02.nii.gz'',
                 ''p/vol/iter01/affine_refvol_mov_b_iter01.mat'']
   \<and> check_iteration_range 2 1 1 3 = Returns ()
   \<and> reslice_transforms example_project 2 3
        \<lparr>raw_filename = ''/b.png'', unique_id = ''b'', z_pos = 1\<rparr>
      = Returns [''p/vol/iter02/affine_refvol_mov_b_iter02.mat'']"
  using
    C7_reslice_transforms [of 1 2 1 3 3 example_project
      "\<lparr>raw_filename = ''/b.png'', unique_id = ''b'', z_pos = 1\<rparr>"]
    C7_reslice_transforms [of 2 1 1 3 3 example_project
      "\<lparr>raw_filename = ''/b.png'', unique_id = ''b'', z_pos = 1\<rparr>"]
  by (simp add: check_iteration_range_def reslice_transforms_def GetFilenameForSlice_def
      printf_02d_def printf_d_def digit_def example_project_def word_le_nat_alt)


section \<open>Properties of the edge weights\<close>

lemma rnd_not_NaN: "rounding_ok rnd \<Longrightarrow> rnd x \<noteq> NaN"
proof
  assume ok: "rounding_ok rnd" and "rnd x = NaN"
  from ok have "d_le (rnd x) (rnd x)" by (simp add: rounding_ok_def)
  with \<open>rnd x = NaN\<close> show False by simp
qed

lemma rnd_ge_0: "rounding_ok rnd \<Longrightarrow> 0 \<le> x \<Longrightarrow> d_le (Finite 0) (rnd x)"
  by (metis rounding_ok_def)

lemma rnd_ge_1: "rounding_ok rnd \<Longrightarrow> 1 \<le> x \<Longrightarrow> d_le (Finite 1) (rnd x)"
  by (metis rounding_ok_def)

lemma base_ge_1:
  assumes "rounding_ok rnd" "d_le (Finite 0) z_epsilon"
  shows "d_le (Finite 1) (d_add rnd (Finite 1) z_epsilon)"
  using assms by (cases z_epsilon) (simp_all add: rnd_ge_1)

lemma factor_ge_0:
  assumes "rounding_ok rnd" "d_le metric (Finite 1)"
  shows "d_le (Finite 0) (d_sub rnd (Finite 1) metric)"
  using assms by (cases metric) (simp_all add: d_sub_def rnd_ge_0)

lemma d_abs_ge_0: "a \<noteq> NaN \<Longrightarrow> d_le (Finite 0) (d_abs a)"
  by (cases a) simp_all

lemma d_abs_not_NaN: "a \<noteq> NaN \<Longrightarrow> d_abs a \<noteq> NaN"
  by (cases a) simp_all

lemma gap_ge_0:
  assumes "rounding_ok rnd"
  shows "d_le (Finite 0) (d_abs (d_sub rnd (Finite z_n) (Finite z)))"
  using rnd_not_NaN [OF assms] by (simp add: d_sub_def d_abs_ge_0)

lemma d_mul_NaN_iff:
  assumes "rounding_ok rnd" "d_le (Finite 0) a" "d_le (Finite 1) p"
  shows "d_mul rnd a p = NaN \<longleftrightarrow> a = Finite 0 \<and> p = PosInf"
  using assms rnd_not_NaN [OF assms(1)]
  by (cases a; cases p) (auto split: if_splits)

lemma d_mul_ge_0:
  assumes "rounding_ok rnd" "d_le (Finite 0) a" "d_le (Finite 1) p" "d_mul rnd a p \<noteq> NaN"
  shows "d_le (Finite 0) (d_mul rnd a p)"
  using assms by (cases a; cases p) (auto simp: rnd_ge_0 split: if_splits)

lemma d_le_refl: "a \<noteq> NaN \<Longrightarrow> d_le a a"
  by (cases a) simp_all

lemma d_le_PosInf: "a \<noteq> NaN \<Longrightarrow> d_le a PosInf"
  by (cases a) simp_all

lemma d_mul_mono:
  assumes ok: "rounding_ok rnd" and a: "d_le (Finite 0) a" and p: "d_le (Finite 1) p"
    and pp: "d_le p p'" and nn: "d_mul rnd a p' \<noteq> NaN"
  shows "d_le (d_mul rnd a p) (d_mul rnd a p')"
proof -
  have mono: "\<And>x y. x \<le> y \<Longrightarrow> d_le (rnd x) (rnd y)"
    using ok by (simp add: rounding_ok_def)
  show ?thesis
  proof (cases a)
    case (Finite x)
    with a have x: "0 \<le> x" by simp
    show ?thesis
    proof (cases p)
      case pf: (Finite y)
      with p have y: "1 \<le> y" by simp
      show ?thesis
      proof (cases p')
        case (Finite y')
        with pp pf have "y \<le> y'" by simp
        then have "x * y \<le> x * y'" using x by (rule mult_left_mono)
        with Finite pf \<open>a = Finite x\<close> show ?thesis by (simp add: mono)
      next
        case PosInf
        with nn \<open>a = Finite x\<close> x have "0 < x" by (auto split: if_splits)
        with PosInf pf \<open>a = Finite x\<close> rnd_not_NaN [OF ok] show ?thesis
          by (simp add: d_le_PosInf)
      qed (use pp pf in simp_all)
    next
      case PosInf
      with pp have "p' = PosInf" by (cases p') simp_all
      with PosInf nn show ?thesis by (simp add: d_le_refl)
    qed (use p in simp_all)
  next
    case PosInf
    have p'1: "d_le (Finite 1) p'"
      using p pp by (cases p; cases p') auto
    from p PosInf have "d_mul rnd a p = PosInf" by (cases p) (auto split: if_splits)
    moreover from p'1 PosInf have "d_mul rnd a p' = PosInf" by (cases p') (auto split: if_splits)
    ultimately show ?thesis by simp
  qed (use a in simp_all)
qed

lemma DBL_MAX_ge: "2 ^ 1023 \<le> DBL_MAX"
proof -
  have "(2 :: real) ^ 971 \<le> 2 ^ 1023" by (rule power_increasing) simp_all
  moreover have "(2 :: real) ^ 1024 = 2 * 2 ^ 1023" by simp
  ultimately show ?thesis by (simp add: DBL_MAX_def)
qed

lemma DBL_MAX_less: "DBL_MAX < 2 ^ 1024"
  by (simp add: DBL_MAX_def)

lemma round_exact_small: "\<bar>x\<bar> \<le> 2 ^ 1023 \<Longrightarrow> round_exact x = Finite x"
  using DBL_MAX_ge by (auto simp: round_exact_def)

lemma round_exact_mono: "x \<le> y \<Longrightarrow> d_le (round_exact x) (round_exact y)"
  using DBL_MAX_ge by (auto simp: round_exact_def)

lemma rounding_ok_round_exact: "rounding_ok round_exact"
  by (simp add: rounding_ok_def round_exact_small round_exact_mono)

lemma round_exact_ge_1: "1 \<le> x \<Longrightarrow> d_le (Finite 1) (round_exact x)"
  using round_exact_mono [of 1 x] by (simp add: round_exact_small)

lemma pow_ok_pow_exact: "pow_ok pow_exact"
  unfolding pow_ok_def
proof (intro allI impI)
  fix b y y' assume h: "d_le (Finite 1) b \<and> d_le (Finite 0) y \<and> d_le y y'"
  show "d_le (Finite 1) (pow_exact b y) \<and> d_le (pow_exact b y) (pow_exact b y')"
  proof (cases b)
    case (Finite b')
    with h have b': "1 \<le> b'" by simp
    show ?thesis
    proof (cases y)
      case yf: (Finite u)
      with h have u: "0 \<le> u" by simp
      have ge: "1 \<le> b' powr u" using b' u by (rule ge_one_powr_ge_zero)
      show ?thesis
      proof (cases y')
        case (Finite u')
        with h yf have "u \<le> u'" by simp
        then have "b' powr u \<le> b' powr u'" using b' by (rule powr_mono)
        with Finite yf \<open>b = Finite b'\<close> b' ge show ?thesis
          by (simp add: round_exact_ge_1 round_exact_mono)
      next
        case PosInf
        show ?thesis
        proof (cases "b' = 1")
          case True
          with PosInf yf \<open>b = Finite b'\<close> show ?thesis by (simp add: round_exact_small)
        next
          case False
          with b' have "1 < b'" by simp
          with PosInf yf \<open>b = Finite b'\<close> ge show ?thesis
            using round_exact_ge_1 [OF ge] by (cases "round_exact (b' powr u)") simp_all
        qed
      qed (use h yf in simp_all)
    next
      case PosInf
      with h have "y' = PosInf" by (cases y') simp_all
      with PosInf \<open>b = Finite b'\<close> b' show ?thesis by auto
    qed (use h in simp_all)
  next
    case PosInf
    show ?thesis
    proof (cases y)
      case yf: (Finite u)
      with h have u: "0 \<le> u" by simp
      show ?thesis
      proof (cases y')
        case (Finite u')
        with h yf have "u \<le> u'" by simp
        with Finite yf PosInf u show ?thesis by auto
      next
        case pi: PosInf
        with yf PosInf u show ?thesis by auto
      qed (use h yf in simp_all)
    next
      case pi: PosInf
      with h have "y' = PosInf" by (cases y') simp_all
      with pi PosInf show ?thesis by simp
    qed (use h in simp_all)
  qed (use h in simp_all)
qed

lemma pow_overflow: "pow_exact (Finite 2) (Finite 2000) = PosInf"
proof -
  have "(2 :: real) ^ 1024 \<le> 2 ^ 2000" by (rule power_increasing) simp_all
  with DBL_MAX_less have "DBL_MAX < 2 ^ 2000" by simp
  then show ?thesis by (simp add: round_exact_def)
qed

text \<open>
  C6 as stated: for \<open>z_epsilon \<ge> 0\<close> and a normalised metric of at most 1 the weight is
  not negative. With a metric of exactly 1, \<open>z_epsilon = 1\<close> and slides at z = 0 and
  z = 2000, the factor \<open>1 - 1\<close> is 0, the power \<open>pow(2, 2000)\<close> overflows to infinity, and
  their product, the weight, is a NaN, which is not at least 0.
\<close>

theorem C6_overflow_counterexample:
  "d_le (Finite 0) (Finite 1) \<and> d_le (Finite 1) (Finite 1)
   \<and> pow_exact (d_add round_exact (Finite 1) (Finite 1))
        (d_abs (d_sub round_exact (Finite 2000) (Finite 0))) = PosInf
   \<and> edge_weight round_exact pow_exact (Finite 1) (Finite 1) (Finite 0) (Finite 2000) = NaN
   \<and> \<not> d_le (Finite 0)
          (edge_weight round_exact pow_exact (Finite 1) (Finite 1) (Finite 0) (Finite 2000))"
proof -
  have a: "d_sub round_exact (Finite 1) (Finite 1) = Finite 0"
    by (simp add: d_sub_def round_exact_small)
  have b: "d_add round_exact (Finite 1) (Finite 1) = Finite 2"
    by (simp add: round_exact_small)
  have g: "d_abs (d_sub round_exact (Finite 2000) (Finite 0)) = Finite 2000"
    by (simp add: d_sub_def round_exact_small)
  show ?thesis
    unfolding edge_weight_def a b g pow_overflow by simp
qed

text \<open>
  C6, amended. For every edge the weight is the product, in the arithmetic of
  \<^verbatim>\<open>double\<close>, of \<open>1 - m\<close> and \<open>pow(1 + z_epsilon, fabs(z_n - z))\<close>, where \<open>m\<close> is the
  metric read back from the metric file when the pair is reused and otherwise the total
  metric of the engine divided by \<open>-10000 * n_components\<close>. With a rounding and a \<open>pow\<close> as
  \<open>rounding_ok\<close> and \<open>pow_ok\<close> describe them, \<open>z_epsilon \<ge> 0\<close> and \<open>m \<le> 1\<close>, the weight
  is a NaN exactly when \<open>1 - m\<close> is 0 and the power is infinite; otherwise it is not
  negative, and it does not decrease when the computed gap grows, as long as the weight at
  the larger gap is not a NaN.
\<close>

theorem C6_edge_weight:
  "(0 < n_components \<longrightarrow>
      pair_metric rnd False stored TotalMetric n_components =
        d_div rnd TotalMetric (d_mul rnd (Finite (- 10000)) (Finite (real n_components))))
   \<and> pair_metric rnd True stored TotalMetric n_components = stored
   \<and> edge_weight rnd pow metric z_epsilon (Finite z) (Finite z_n) =
        d_mul rnd (d_sub rnd (Finite 1) metric)
          (pow (d_add rnd (Finite 1) z_epsilon) (d_abs (d_sub rnd (Finite z_n) (Finite z))))
   \<and> (rounding_ok rnd \<and> pow_ok pow \<and> d_le (Finite 0) z_epsilon \<and> d_le metric (Finite 1)
        \<longrightarrow>
        (edge_weight rnd pow metric z_epsilon (Finite z) (Finite z_n) = NaN \<longleftrightarrow>
           d_sub rnd (Finite 1) metric = Finite 0
           \<and> pow (d_add rnd (Finite 1) z_epsilon) (d_abs (d_sub rnd (Finite z_n) (Finite z)))
               = PosInf)
        \<and> (edge_weight rnd pow metric z_epsilon (Finite z) (Finite z_n) \<noteq> NaN \<longrightarrow>
             d_le (Finite 0) (edge_weight rnd pow metric z_epsilon (Finite z) (Finite z_n)))
        \<and> (d_le (d_abs (d_sub rnd (Finite z_n) (Finite z)))
                 (d_abs (d_sub rnd (Finite z_n') (Finite z')))
             \<and> edge_weight rnd pow metric z_epsilon (Finite z') (Finite z_n') \<noteq> NaN \<longrightarrow>
             d_le (edge_weight rnd pow metric z_epsilon (Finite z) (Finite z_n))
                  (edge_weight rnd pow metric z_epsilon (Finite z') (Finite z_n'))))"
proof (intro conjI impI)
  show "pair_metric rnd True stored TotalMetric n_components = stored"
    by (simp add: pair_metric_def)
  show "edge_weight rnd pow metric z_epsilon (Finite z) (Finite z_n) =
        d_mul rnd (d_sub rnd (Finite 1) metric)
          (pow (d_add rnd (Finite 1) z_epsilon) (d_abs (d_sub rnd (Finite z_n) (Finite z))))"
    by (simp add: edge_weight_def)
next
  assume "0 < n_components"
  then show "pair_metric rnd False stored TotalMetric n_components =
        d_div rnd TotalMetric (d_mul rnd (Finite (- 10000)) (Finite (real n_components)))"
    by (simp add: pair_metric_def normalize_metric_def)
next
  assume h: "rounding_ok rnd \<and> pow_ok pow \<and> d_le (Finite 0) z_epsilon \<and> d_le metric (Finite 1)"
  let ?a = "d_sub rnd (Finite 1) metric"
  let ?b = "d_add rnd (Finite 1) z_epsilon"
  let ?g = "d_abs (d_sub rnd (Finite z_n) (Finite z))"
  let ?g' = "d_abs (d_sub rnd (Finite z_n') (Finite z'))"
  from h have ok: "rounding_ok rnd" and pk: "pow_ok pow" by simp_all
  have a: "d_le (Finite 0) ?a" using h by (intro factor_ge_0) simp_all
  have b: "d_le (Finite 1) ?b" using h by (intro base_ge_1) simp_all
  have g: "d_le (Finite 0) ?g" by (rule gap_ge_0 [OF ok])
  have "d_sub rnd (Finite z_n) (Finite z) \<noteq> NaN"
    using rnd_not_NaN [OF ok] by (simp add: d_sub_def)
  then have g_refl: "d_le ?g ?g"
    by (intro d_le_refl d_abs_not_NaN)
  have p: "d_le (Finite 1) (pow ?b ?g)"
    using pk b g g_refl unfolding pow_ok_def by blast
  show "edge_weight rnd pow metric z_epsilon (Finite z) (Finite z_n) = NaN \<longleftrightarrow>
           ?a = Finite 0 \<and> pow ?b ?g = PosInf"
    unfolding edge_weight_def by (rule d_mul_NaN_iff [OF ok a p])
  show "d_le (Finite 0) (edge_weight rnd pow metric z_epsilon (Finite z) (Finite z_n))"
    if "edge_weight rnd pow metric z_epsilon (Finite z) (Finite z_n) \<noteq> NaN"
    using that unfolding edge_weight_def by (intro d_mul_ge_0 [OF ok a p])
  show "d_le (edge_weight rnd pow metric z_epsilon (Finite z) (Finite z_n))
                  (edge_weight rnd pow metric z_epsilon (Finite z') (Finite z_n'))"
    if m: "d_le ?g ?g' \<and> edge_weight rnd pow metric z_epsilon (Finite z') (Finite z_n') \<noteq> NaN"
  proof -
    have "d_le (pow ?b ?g) (pow ?b ?g')"
      using pk b g m unfolding pow_ok_def by blast
    with m show ?thesis
      unfolding edge_weight_def by (intro d_mul_mono [OF ok a p]) simp_all
  qed
qed

theorem C6_edge_weight_witness:
  "rounding_ok round_exact \<and> pow_ok pow_exact
   \<and> d_le (Finite 0) (Finite 1) \<and> d_le (Finite (1 / 2)) (Finite 1) \<and> (0 :: nat) < 3
   \<and> pair_metric round_exact False NaN (Finite (- 15000)) 3 = Finite (1 / 2)
   \<and> edge_weight round_exact pow_exact (Finite (1 / 2)) (Finite 1) (Finite 0) (Finite 2)
       = Finite 2
   \<and> edge_weight round_exact pow_exact (Finite (1 / 2)) (Finite 1) (Finite 0) (Finite 3)
       = Finite 4
   \<and> d_le (d_abs (d_sub round_exact (Finite 2) (Finite 0)))
          (d_abs (d_sub round_exact (Finite 3) (Finite 0)))
   \<and> d_le (Finite 2) (Finite 4)"
  using C6_edge_weight [of 3 round_exact NaN "Finite (- 15000)" pow_exact "Finite (1 / 2)"
      "Finite 1" 0 2 3 0]
    rounding_ok_round_exact pow_ok_pow_exact
  by (simp add: pair_metric_def normalize_metric_def edge_weight_def d_sub_def
      round_exact_small)


section \<open>Properties of the manifest reader\<close>

lemma blank_line_fails:
  assumes "list_all isspace f_line"
  shows "read_slice num_get f_line = None"
proof -
  have "dropWhile isspace f_line = []"
    using assms by (simp add: list_all_iff)
  then show ?thesis by (simp add: read_slice_def extract_string_def)
qed

lemma read_lines_Returns:
  "(\<exists>r. read_lines num_get FileExists CollapseFullPath f_lines slices sorted_slices = Returns r)
     \<longleftrightarrow> list_all (line_ok num_get FileExists) f_lines"
  by (induction f_lines arbitrary: slices sorted_slices)
    (auto simp: line_ok_def split: option.splits)

lemma read_lines_not_external:
  "read_lines num_get FileExists CollapseFullPath f_lines slices sorted_slices \<noteq> ExternalThrows"
  by (induction f_lines arbitrary: slices sorted_slices) (auto split: option.splits)

lemma read_lines_length:
  "read_lines num_get FileExists CollapseFullPath f_lines slices sorted_slices
     = Returns (slices', sorted_slices')
   \<Longrightarrow> length slices' = length slices + length f_lines"
  by (induction f_lines arbitrary: slices sorted_slices) (auto split: option.splits if_splits)

lemma ReadManifest_Returns:
  "(\<exists>P'. ReadManifest num_get FileExists CollapseFullPath (Some content) P = Returns P')
     \<longleftrightarrow> list_all (line_ok num_get FileExists) (getlines [] content)"
proof -
  have "(\<exists>P'. ReadManifest num_get FileExists CollapseFullPath (Some content) P = Returns P')
     \<longleftrightarrow> (\<exists>r. read_lines num_get FileExists CollapseFullPath (getlines [] content) [] []
               = Returns r)"
    by (auto simp: ReadManifest_def and_then_Returns)
  then show ?thesis
    using read_lines_Returns
      [of num_get FileExists CollapseFullPath "getlines [] content" "[]" "[]"]
    by simp
qed

lemma ReadManifest_Throws:
  "(\<exists>e. ReadManifest num_get FileExists CollapseFullPath (Some content) P = Throws e)
     \<longleftrightarrow> \<not> list_all (line_ok num_get FileExists) (getlines [] content)"
proof -
  have ne: "ReadManifest num_get FileExists CollapseFullPath (Some content) P \<noteq> ExternalThrows"
    using read_lines_not_external [of num_get FileExists CollapseFullPath "getlines [] content" "[]" "[]"]
    by (cases "read_lines num_get FileExists CollapseFullPath (getlines [] content) [] []")
      (auto simp: ReadManifest_def)
  show ?thesis
    using ne ReadManifest_Returns [of num_get FileExists CollapseFullPath content P]
    by (cases "ReadManifest num_get FileExists CollapseFullPath (Some content) P") auto
qed

lemma ReadManifest_length:
  assumes "ReadManifest num_get FileExists CollapseFullPath (Some content) P = Returns P'"
  shows "length (m_Slices P') = length (getlines [] content)"
proof -
  from assms obtain sl so where
    "read_lines num_get FileExists CollapseFullPath (getlines [] content) [] [] = Returns (sl, so)"
    "P' = P\<lparr>m_Slices := sl, m_SortedSlices := so\<rparr>"
    by (auto simp: ReadManifest_def and_then_Returns)
  then show ?thesis using read_lines_length by fastforce
qed

text \<open>
  The sorted index a manifest leaves behind names every slide once, by an index below the
  number of slides: what the properties of the neighbour sets ask of it.
\<close>

lemma distinct_set_insert:
  "distinct (map snd xs) \<Longrightarrow> snd x \<notin> snd ` set xs \<Longrightarrow> distinct (map snd (set_insert x xs))"
  by (induction xs) (auto simp: set_set_insert)

lemma read_lines_indices:
  assumes "read_lines num_get FileExists CollapseFullPath f_lines slices sorted_slices
             = Returns (slices', sorted_slices')"
    and "distinct (map snd sorted_slices)" and "snd ` set sorted_slices = {0..<length slices}"
  shows "distinct (map snd sorted_slices') \<and> snd ` set sorted_slices' = {0..<length slices'}"
  using assms
proof (induction f_lines arbitrary: slices sorted_slices)
  case Nil
  then show ?case by simp
next
  case (Cons f_line f_lines)
  from Cons.prems(1) obtain slide where
    rest: "read_lines num_get FileExists CollapseFullPath f_lines
             (slices @ [slide\<lparr>raw_filename := CollapseFullPath (raw_filename slide)\<rparr>])
             (set_insert (z_pos slide, length slices) sorted_slices)
           = Returns (slices', sorted_slices')"
    by (auto split: option.splits if_splits)
  have fresh: "snd (z_pos slide, length slices) \<notin> snd ` set sorted_slices"
    using Cons.prems(3) by simp
  have d: "distinct (map snd (set_insert (z_pos slide, length slices) sorted_slices))"
    by (rule distinct_set_insert [OF Cons.prems(2) fresh])
  have s: "snd ` set (set_insert (z_pos slide, length slices) sorted_slices)
             = {0..<length (slices @ [slide\<lparr>raw_filename := CollapseFullPath (raw_filename slide)\<rparr>])}"
    using Cons.prems(3) by (auto simp: set_set_insert)
  show ?case by (rule Cons.IH [OF rest d s])
qed

lemma ReadManifest_indices:
  assumes "ReadManifest num_get FileExists CollapseFullPath manifest P = Returns P'"
  shows "distinct (map snd (m_SortedSlices P'))
       \<and> (\<forall>x\<in>set (m_SortedSlices P'). snd x < length (m_Slices P'))"
proof -
  from assms obtain sl so where
    r: "read_lines num_get FileExists CollapseFullPath
          (case manifest of None \<Rightarrow> [] | Some content \<Rightarrow> getlines [] content) [] []
        = Returns (sl, so)" and
    P': "P' = P\<lparr>m_Slices := sl, m_SortedSlices := so\<rparr>"
    by (auto simp: ReadManifest_def and_then_Returns)
  from read_lines_indices [OF r] have d: "distinct (map snd so)"
    and i: "snd ` set so = {0..<length sl}"
    by simp_all
  have "\<forall>x\<in>set so. snd x < length sl"
  proof
    fix x assume "x \<in> set so"
    then have "snd x \<in> snd ` set so" by (rule imageI)
    with i show "snd x < length sl" by simp
  qed
  with d show ?thesis using P' by simp
qed

text \<open>
  C2 as stated: blank lines are skipped, and a manifest whose other lines have three
  fields and name existing files is read. The manifest of two good lines with an empty
  line between them is rejected, and so is a line of three fields whose second field is
  not a number.
\<close>

theorem C2_blank_line_counterexample:
  "getlines [] example_manifest_blank = [''a 0 /a.png'', [], ''b 1 /b.png'']
   \<and> line_ok num_get_unsigned (\<lambda>f. True) ''a 0 /a.png''
   \<and> line_ok num_get_unsigned (\<lambda>f. True) ''b 1 /b.png''
   \<and> ReadManifest num_get_unsigned (\<lambda>f. True) (\<lambda>f. f) (Some example_manifest_blank)
        example_project
      = Throws (GreedyException ''Error reading manifest file, line '')
   \<and> ReadManifest num_get_unsigned (\<lambda>f. True) (\<lambda>f. f) (Some ''a b /a.png'') example_project
      = Throws (GreedyException ''Error reading manifest file, line a b /a.png'')"
proof -
  have a: "read_slice num_get_unsigned ''a 0 /a.png''
             = Some \<lparr>raw_filename = ''/a.png'', unique_id = ''a'', z_pos = 0\<rparr>"
    by (simp add: read_slice_def extract_string_def extract_double_def isspace_def
        num_get_unsigned_def is_digit_def digits_value_def)
  have b: "read_slice num_get_unsigned ''b 1 /b.png''
             = Some \<lparr>raw_filename = ''/b.png'', unique_id = ''b'', z_pos = 1\<rparr>"
    by (simp add: read_slice_def extract_string_def extract_double_def isspace_def
        num_get_unsigned_def is_digit_def digits_value_def)
  have e: "read_slice num_get_unsigned [] = None"
    by (simp add: read_slice_def extract_string_def)
  have n: "read_slice num_get_unsigned ''a b /a.png'' = None"
    by (simp add: read_slice_def extract_string_def extract_double_def isspace_def
        num_get_unsigned_def is_digit_def)
  have g: "getlines [] example_manifest_blank = [''a 0 /a.png'', [], ''b 1 /b.png'']"
    by (simp add: example_manifest_blank_def)
  show ?thesis
    by (simp add: ReadManifest_def g a b e n line_ok_def)
qed

text \<open>
  C2, amended. \<open>ReadManifest\<close> skips no line. It fails with a \<open>GreedyException\<close> exactly
  when some line of the manifest, blank ones included, does not yield the three fields
  (an id, a number, a file name) or names a file that does not exist; a line of white space
  only is never accepted. When every line is accepted, parsing succeeds with one slide per
  line.
\<close>

theorem C2_ReadManifest_accepts:
  "((\<exists>P'. ReadManifest num_get FileExists CollapseFullPath (Some content) P = Returns P')
      \<longleftrightarrow> list_all (line_ok num_get FileExists) (getlines [] content))
   \<and> ((\<exists>e. ReadManifest num_get FileExists CollapseFullPath (Some content) P = Throws e)
      \<longleftrightarrow> \<not> list_all (line_ok num_get FileExists) (getlines [] content))
   \<and> (list_all isspace f_line \<longrightarrow> \<not> line_ok num_get FileExists f_line)
   \<and> (\<forall>P'. ReadManifest num_get FileExists CollapseFullPath (Some content) P = Returns P'
          \<longrightarrow> length (m_Slices P') = length (getlines [] content))"
  using ReadManifest_Returns [of num_get FileExists CollapseFullPath content P]
    ReadManifest_Throws [of num_get FileExists CollapseFullPath content P]
    ReadManifest_length [of num_get FileExists CollapseFullPath content P]
    blank_line_fails [of f_line num_get]
  by (simp add: line_ok_def)

theorem C2_ReadManifest_accepts_witness:
  "list_all (line_ok num_get_unsigned (\<lambda>f. True)) (getlines [] example_manifest)
   \<and> ReadManifest num_get_unsigned (\<lambda>f. True) (\<lambda>f. f) (Some example_manifest) example_project
      = Returns example_project
   \<and> length (m_Slices example_project) = length (getlines [] example_manifest)
   \<and> list_all isspace [CHR '' '', CHR 0x09]
   \<and> \<not> line_ok num_get_unsigned (\<lambda>f. True) [CHR '' '', CHR 0x09]"
proof -
  have a: "read_slice num_get_unsigned ''a 0 /a.png''
             = Some \<lparr>raw_filename = ''/a.png'', unique_id = ''a'', z_pos = 0\<rparr>"
    by (simp add: read_slice_def extract_string_def extract_double_def isspace_def
        num_get_unsigned_def is_digit_def digits_value_def)
  have b: "read_slice num_get_unsigned ''b 1 /b.png''
             = Some \<lparr>raw_filename = ''/b.png'', unique_id = ''b'', z_pos = 1\<rparr>"
    by (simp add: read_slice_def extract_string_def extract_double_def isspace_def
        num_get_unsigned_def is_digit_def digits_value_def)
  have r: "ReadManifest num_get_unsigned (\<lambda>f. True) (\<lambda>f. f) (Some example_manifest)
             example_project = Returns example_project"
    by (simp add: ReadManifest_def example_manifest_def a b) (simp add: example_project_def)
  have s: "list_all isspace [CHR '' '', CHR 0x09]"
    by (simp add: isspace_def)
  show ?thesis
    using C2_ReadManifest_accepts [of num_get_unsigned "\<lambda>f. True" "\<lambda>f. f" example_manifest
        example_project "[CHR '' '', CHR 0x09]"] r s
    by (simp add: example_manifest_def a b line_ok_def)
qed

end
